theory Spec2Isabelle
  imports Complex_Main "HOL-Library.Log_Nat"
begin

section \<open>Go's float64 arithmetic\<close>

text \<open>
  Every number of \<^verbatim>\<open>main.go\<close> that a reading carries is a Go \<^verbatim>\<open>float64\<close>, an IEEE-754
  binary64 value. A finite value is kept as the rational it denotes; the result of an
  operation is the exact rational result rounded to the nearest binary64 value, ties to the
  even significand, as the hardware does. The sign of zero is not tracked: it could only show
  in a division by zero, and the divisors of this program (a duration in seconds, a record
  count) are never negative.
\<close>

datatype float64 = Finite rat | PosInf | NegInf | NaN

definition rne :: "rat \<Rightarrow> int" where
  \<comment> \<open>the nearest integer, a tie going to the even one\<close>
  "rne x = (let f = \<lfloor>x\<rfloor>; r = x - of_int f in
     if r < 1/2 then f else if 1/2 < r then f + 1 else if even f then f else f + 1)"

definition expo :: "rat \<Rightarrow> int" where
  \<comment> \<open>the binary exponent \<open>e\<close> of a non-zero \<open>x\<close>: \<open>2^e \<le> |x| < 2^(e+1)\<close>\<close>
  "expo x = (let (p, q) = quotient_of \<bar>x\<bar>; e = bitlen p - bitlen q
             in if 2 powi e \<le> \<bar>x\<bar> then e else e - 1)"

definition quantum :: "rat \<Rightarrow> int" where
  \<comment> \<open>the exponent of the last place of a 53-bit significand; subnormals stop at \<open>-1074\<close>\<close>
  "quantum x = max (expo x - 52) (- 1074)"

definition rne53 :: "rat \<Rightarrow> rat" where
  "rne53 x = of_int (rne (x / 2 powi quantum x)) * 2 powi quantum x"

definition round64 :: "rat \<Rightarrow> float64" where
  \<comment> \<open>the largest exponent of a finite binary64 value is 1023: a rounded magnitude of
      \<open>2^1024\<close> or more overflows to an infinity\<close>
  "round64 x = (let y = rne53 x in
     if expo y < 1024 then Finite y else if 0 < y then PosInf else NegInf)"

definition huge :: rat where
  \<comment> \<open>a magnitude up to which no rounded result overflows\<close>
  "huge = 2 ^ 1023"

definition f64 :: "rat \<Rightarrow> float64" where
  \<comment> \<open>a numeric constant of the source text, converted to \<^verbatim>\<open>float64\<close>\<close>
  "f64 c = round64 c"

definition float64_of_int :: "int \<Rightarrow> float64" where
  \<comment> \<open>the conversion \<^verbatim>\<open>float64(n)\<close> of an integer\<close>
  "float64_of_int n = round64 (of_int n)"

definition rsgn :: "rat \<Rightarrow> int" where
  "rsgn x = (if 0 < x then 1 else if x < 0 then - 1 else 0)"

definition fsgn :: "float64 \<Rightarrow> int" where
  "fsgn a = (case a of Finite x \<Rightarrow> rsgn x | PosInf \<Rightarrow> 1 | NegInf \<Rightarrow> - 1 | NaN \<Rightarrow> 0)"

definition inf_signed :: "int \<Rightarrow> float64" where
  "inf_signed s = (if 0 < s then PosInf else if s < 0 then NegInf else NaN)"

fun fneg :: "float64 \<Rightarrow> float64" where
  "fneg (Finite x) = Finite (- x)"
| "fneg PosInf = NegInf"
| "fneg NegInf = PosInf"
| "fneg NaN = NaN"

fun fadd :: "float64 \<Rightarrow> float64 \<Rightarrow> float64" where
  "fadd (Finite x) (Finite y) = round64 (x + y)"
| "fadd NaN _ = NaN"
| "fadd _ NaN = NaN"
| "fadd PosInf NegInf = NaN"
| "fadd NegInf PosInf = NaN"
| "fadd PosInf _ = PosInf"
| "fadd _ PosInf = PosInf"
| "fadd NegInf _ = NegInf"
| "fadd _ NegInf = NegInf"

definition fsub :: "float64 \<Rightarrow> float64 \<Rightarrow> float64" where
  "fsub a b = fadd a (fneg b)"

definition fmul :: "float64 \<Rightarrow> float64 \<Rightarrow> float64" where
  "fmul a b = (case (a, b) of
       (Finite x, Finite y) \<Rightarrow> round64 (x * y)
     | _ \<Rightarrow> if a = NaN \<or> b = NaN then NaN else inf_signed (fsgn a * fsgn b))"

definition fdiv :: "float64 \<Rightarrow> float64 \<Rightarrow> float64" where
  \<comment> \<open>a float division never panics: \<open>x / 0\<close> is an infinity and \<open>0 / 0\<close> is NaN\<close>
  "fdiv a b = (case (a, b) of
       (Finite x, Finite y) \<Rightarrow> if y = 0 then inf_signed (rsgn x) else round64 (x / y)
     | (Finite x, PosInf) \<Rightarrow> Finite 0
     | (Finite x, NegInf) \<Rightarrow> Finite 0
     | (PosInf, Finite y) \<Rightarrow> (if 0 \<le> y then PosInf else NegInf)
     | (NegInf, Finite y) \<Rightarrow> (if 0 \<le> y then NegInf else PosInf)
     | _ \<Rightarrow> NaN)"

definition fma :: "float64 \<Rightarrow> float64 \<Rightarrow> float64 \<Rightarrow> float64" where
  \<comment> \<open>the fused \<open>a * b + c\<close>: one rounding of the exact result\<close>
  "fma a b c = (case (a, b) of
       (Finite x, Finite y) \<Rightarrow> (case c of Finite z \<Rightarrow> round64 (x * y + z) | _ \<Rightarrow> c)
     | _ \<Rightarrow> fadd (fmul a b) c)"

definition mulAdd :: "bool \<Rightarrow> float64 \<Rightarrow> float64 \<Rightarrow> float64 \<Rightarrow> float64" where
  \<comment> \<open>\<^verbatim>\<open>c + a*b\<close> as written in the source. The Go specification lets a compiler fuse the two
      operations (the arm64 compiler does, the default amd64 one does not); \<open>fused\<close> says
      which code was generated.\<close>
  "mulAdd fused a b c = (if fused then fma a b c else fadd (fmul a b) c)"

fun flt :: "float64 \<Rightarrow> float64 \<Rightarrow> bool" where
  "flt (Finite x) (Finite y) = (x < y)"
| "flt NaN _ = False"
| "flt _ NaN = False"
| "flt _ NegInf = False"
| "flt NegInf _ = True"
| "flt PosInf _ = False"
| "flt _ PosInf = True"

fun fle :: "float64 \<Rightarrow> float64 \<Rightarrow> bool" where
  "fle (Finite x) (Finite y) = (x \<le> y)"
| "fle NaN _ = False"
| "fle _ NaN = False"
| "fle NegInf _ = True"
| "fle _ NegInf = False"
| "fle _ PosInf = True"
| "fle PosInf _ = False"

definition is_unit :: "float64 \<Rightarrow> bool" where
  \<comment> \<open>what \<^verbatim>\<open>rng.Float64()\<close> returns: a binary64 value in the half-open interval \<open>[0.0, 1.0)\<close>\<close>
  "is_unit u = (case u of Finite x \<Rightarrow> 0 \<le> x \<and> x < 1 \<and> rne53 x = x | _ \<Rightarrow> False)"

section \<open>The data model of \<^verbatim>\<open>main.go\<close>\<close>

record Location =
  Lat :: float64
  Lon :: float64
  MilePost :: float64

record SensorReading =
  SensorID :: string
  Timestamp :: string
  Type :: string
  Value :: float64
  Unit :: string
  Location :: Location
  PipelineID :: string
  Status :: string
  Quality :: float64
  AlertLevel :: string

text \<open>An entry of the table \<^verbatim>\<open>sensorTypes\<close> (an anonymous struct in the source).\<close>

record sensorType =
  stType :: string
  stUnit :: string
  stMin :: float64
  stMax :: float64

definition sensorTypes :: "sensorType list" where
  "sensorTypes =
    [\<lparr>stType = ''pressure'', stUnit = ''psi'', stMin = f64 200, stMax = f64 1500\<rparr>,
     \<lparr>stType = ''temperature'', stUnit = ''fahrenheit'', stMin = f64 (- 20), stMax = f64 180\<rparr>,
     \<lparr>stType = ''flow_rate'', stUnit = ''bbl/hr'', stMin = f64 0, stMax = f64 50000\<rparr>,
     \<lparr>stType = ''vibration'', stUnit = ''mm/s'', stMin = f64 0, stMax = f64 25\<rparr>,
     \<lparr>stType = ''corrosion'', stUnit = ''mpy'', stMin = f64 0, stMax = f64 50\<rparr>,
     \<lparr>stType = ''humidity'', stUnit = ''percent'', stMin = f64 0, stMax = f64 100\<rparr>,
     \<lparr>stType = ''gas_detector'', stUnit = ''ppm'', stMin = f64 0, stMax = f64 1000\<rparr>,
     \<lparr>stType = ''valve_position'', stUnit = ''percent'', stMin = f64 0, stMax = f64 100\<rparr>]"

definition pipelineIDs :: "string list" where
  "pipelineIDs =
    [''PIPE-TX-001'', ''PIPE-TX-002'', ''PIPE-OK-001'', ''PIPE-LA-001'',
     ''PIPE-NM-001'', ''PIPE-CO-001'', ''PIPE-WY-001'', ''PIPE-ND-001'']"

definition statuses :: "string list" where
  "statuses = [''normal'', ''normal'', ''normal'', ''normal'', ''warning'', ''maintenance'']"

definition alertLevels :: "string list" where
  "alertLevels = ['''', '''', '''', '''', '''', ''low'', ''medium'', ''high'']"

section \<open>The random source\<close>

text \<open>
  \<^verbatim>\<open>generateReading\<close> calls the random source a fixed number of times. The record below
  names what each call returns, in the order of the calls. \<^verbatim>\<open>rng.Intn(n)\<close> returns an
  integer of \<open>[0, n)\<close>: its field holds any natural number and \<open>Intn\<close> reduces it into
  that range. \<^verbatim>\<open>rng.Float64()\<close> returns a \<^verbatim>\<open>float64\<close> of \<open>[0.0, 1.0)\<close>: its fields hold
  any \<^verbatim>\<open>float64\<close>, and \<open>valid_draws\<close> says that all of them are in that interval. The
  draw \<open>dAnomaly\<close> is consumed only when the anomaly branch is taken.
\<close>

record draws =
  dType :: nat
  dPipeline :: nat
  dStatus :: nat
  dAlert :: nat
  dBase :: float64
  dGate :: float64
  dAnomaly :: float64
  dSerial :: nat
  dQuality :: float64
  dLat :: float64
  dLon :: float64
  dMile :: float64

definition Intn :: "nat \<Rightarrow> nat \<Rightarrow> nat" where
  "Intn raw n = raw mod n"

definition valid_draws :: "draws \<Rightarrow> bool" where
  "valid_draws d = (is_unit (dBase d) \<and> is_unit (dGate d) \<and> is_unit (dAnomaly d) \<and>
     is_unit (dQuality d) \<and> is_unit (dLat d) \<and> is_unit (dLon d) \<and> is_unit (dMile d))"

section \<open>\<^verbatim>\<open>generateReading\<close>\<close>

fun digits :: "nat \<Rightarrow> string" where
  "digits n = (if n < 10 then [char_of (48 + n)] else digits (n div 10) @ [char_of (48 + n mod 10)])"

definition pad04 :: "nat \<Rightarrow> string" where
  \<comment> \<open>the verb \<^verbatim>\<open>%04d\<close>: decimal, filled with zeros up to four characters\<close>
  "pad04 n = replicate (4 - length (digits n)) (CHR ''0'') @ digits n"

definition anomalous :: "draws \<Rightarrow> bool" where
  \<comment> \<open>the test \<^verbatim>\<open>rng.Float64() < 0.02\<close>\<close>
  "anomalous d = flt (dGate d) (f64 (1 / 50))"

definition generateReading :: "bool \<Rightarrow> string \<Rightarrow> draws \<Rightarrow> SensorReading" where
  \<comment> \<open>\<open>now\<close> is \<^verbatim>\<open>time.Now().UTC().Format(time.RFC3339Nano)\<close>\<close>
  "generateReading fused now d =
    (let st = sensorTypes ! Intn (dType d) (length sensorTypes);
         pipeline = pipelineIDs ! Intn (dPipeline d) (length pipelineIDs);
         status = statuses ! Intn (dStatus d) (length statuses);
         alert = alertLevels ! Intn (dAlert d) (length alertLevels);
         value = mulAdd fused (dBase d) (fsub (stMax st) (stMin st)) (stMin st);
         (value, alert) =
           (if anomalous d
            then (mulAdd fused (fmul (dAnomaly d) (stMax st)) (f64 (1 / 5)) (stMax st),
                  if alert = [] then ''medium'' else alert)
            else (value, alert))
     in \<lparr>SensorID = ''SNS-'' @ take 3 (stType st) @ ''-'' @ pad04 (Intn (dSerial d) 10000),
         Timestamp = now,
         Type = stType st,
         Value = value,
         Unit = stUnit st,
         Location = \<lparr>Lat = mulAdd fused (dLat d) (f64 20) (f64 25),
                      Lon = mulAdd fused (dLon d) (f64 15) (f64 (- 105)),
                      MilePost = fmul (dMile d) (f64 500)\<rparr>,
         PipelineID = pipeline,
         Status = status,
         Quality = mulAdd fused (dQuality d) (f64 (3 / 20)) (f64 (17 / 20)),
         AlertLevel = alert\<rparr>)"


section \<open>Serialization: \<^verbatim>\<open>json.Marshal\<close> of a \<^verbatim>\<open>SensorReading\<close>\<close>

text \<open>
  \<^verbatim>\<open>json.Marshal\<close> belongs to Go's standard library. What it does to a \<^verbatim>\<open>SensorReading\<close>
  is fixed by the struct tags of the source: the keys, their order, the nested object of
  \<^verbatim>\<open>Location\<close>, and \<^verbatim>\<open>omitempty\<close> on \<^verbatim>\<open>alert_level\<close>. It fails on a \<^verbatim>\<open>float64\<close> that is
  NaN or an infinity (\<^verbatim>\<open>UnsupportedValueError\<close>) and on nothing else that a
  \<^verbatim>\<open>SensorReading\<close> can hold. The decimal text of a finite number (\<^verbatim>\<open>strconv.AppendFloat\<close>)
  is a parameter \<open>fmt\<close>. Bytes from \<open>0x80\<close> on pass through \<open>escape\<close> unchanged; the
  strings of this program are ASCII.
\<close>

datatype json = JString string | JNumber rat | JObject "(string \<times> json) list"

datatype error = UnsupportedValueError

definition hexdigit :: "nat \<Rightarrow> char" where
  "hexdigit n = ''0123456789abcdef'' ! (n mod 16)"

definition escape :: "char \<Rightarrow> string" where
  "escape c =
    (if c = CHR 0x22 \<or> c = CHR 0x5C then [CHR 0x5C, c]
     else if c = CHR 0x08 then [CHR 0x5C, CHR ''b'']
     else if c = CHR 0x0C then [CHR 0x5C, CHR ''f'']
     else if c = CHR 0x0A then [CHR 0x5C, CHR ''n'']
     else if c = CHR 0x0D then [CHR 0x5C, CHR ''r'']
     else if c = CHR 0x09 then [CHR 0x5C, CHR ''t'']
     else if (of_char c :: nat) < 0x20 \<or> c = CHR ''<'' \<or> c = CHR ''>'' \<or> c = CHR ''&''
       then [CHR 0x5C, CHR ''u'', CHR ''0'', CHR ''0'',
             hexdigit (of_char c div 16), hexdigit (of_char c)]
     else [c])"

definition quote :: "string \<Rightarrow> string" where
  "quote s = CHR 0x22 # concat (map escape s) @ [CHR 0x22]"

fun commas :: "string list \<Rightarrow> string" where
  "commas [] = []"
| "commas [x] = x"
| "commas (x # y # ys) = x @ '','' @ commas (y # ys)"

fun render :: "(rat \<Rightarrow> string) \<Rightarrow> json \<Rightarrow> string" where
  "render fmt (JString s) = quote s"
| "render fmt (JNumber x) = fmt x"
| "render fmt (JObject kvs) =
     ''{'' @ commas (map (\<lambda>kv. quote (fst kv) @ '':'' @ render fmt (snd kv)) kvs) @ ''}''"

definition number :: "float64 \<Rightarrow> json option" where
  "number a = (case a of Finite x \<Rightarrow> Some (JNumber x) | _ \<Rightarrow> None)"

definition encode :: "SensorReading \<Rightarrow> error + json" where
  "encode r =
    (case (number (Value r), number (Lat (Location r)), number (Lon (Location r)),
           number (MilePost (Location r)), number (Quality r)) of
       (Some v, Some la, Some lo, Some mp, Some q) \<Rightarrow>
         Inr (JObject
           ([(''sensor_id'', JString (SensorID r)),
             (''timestamp'', JString (Timestamp r)),
             (''type'', JString (Type r)),
             (''value'', v),
             (''unit'', JString (Unit r)),
             (''location'', JObject [(''lat'', la), (''lon'', lo), (''mile_post'', mp)]),
             (''pipeline_id'', JString (PipelineID r)),
             (''status'', JString (Status r)),
             (''quality_score'', q)]
            @ (if AlertLevel r = [] then [] else [(''alert_level'', JString (AlertLevel r))])))
     | _ \<Rightarrow> Inl UnsupportedValueError)"

definition Marshal :: "(rat \<Rightarrow> string) \<Rightarrow> SensorReading \<Rightarrow> error + string" where
  "Marshal fmt r = (case encode r of Inl e \<Rightarrow> Inl e | Inr j \<Rightarrow> Inr (render fmt j))"


section \<open>The emission loop of \<^verbatim>\<open>main\<close>\<close>

text \<open>
  The state of the loop: the bytes handed to the buffered writer so far, in order; how
  many of them a \<^verbatim>\<open>Flush\<close> has pushed to the file (the writer may push more on its own
  when its buffer fills, never fewer); and the counter \<^verbatim>\<open>totalEntries\<close>. The counter is an
  \<^verbatim>\<open>int64\<close> that starts at zero and grows by one per record: it stays far below \<open>2^63\<close>
  and is modelled without wrap-around. The errors of \<^verbatim>\<open>Write\<close> and \<^verbatim>\<open>Flush\<close> are ignored
  by the source and the sink is taken to be writable.
\<close>

record state =
  written :: string
  flushed :: nat
  totalEntries :: int

text \<open>
  What the loop takes from outside: the text of each number, the clock and the random
  source. The \<open>k\<close>-th call of \<^verbatim>\<open>generateReading\<close> in a run reads \<open>clock k\<close> and \<open>random k\<close>.
\<close>

record env =
  fusedArith :: bool
  formatFloat :: "rat \<Rightarrow> string"
  clock :: "nat \<Rightarrow> string"
  random :: "nat \<Rightarrow> draws"

definition writeRecord :: "(rat \<Rightarrow> string) \<Rightarrow> SensorReading \<Rightarrow> state \<Rightarrow> state" where
  \<comment> \<open>\<^verbatim>\<open>data, _ := json.Marshal(reading); writer.Write(data); writer.WriteByte('\n');
      totalEntries++\<close>: the error is dropped, and on an error \<^verbatim>\<open>data\<close> is \<^verbatim>\<open>nil\<close>\<close>
  "writeRecord fmt reading s =
    (let data = (case Marshal fmt reading of Inr b \<Rightarrow> b | Inl e \<Rightarrow> [])
     in s\<lparr>written := written s @ data @ [CHR 0x0A], totalEntries := totalEntries s + 1\<rparr>)"

definition emit :: "env \<Rightarrow> state \<Rightarrow> state" where
  "emit e s =
    (let k = nat (totalEntries s);
         reading = generateReading (fusedArith e) (clock e k) (random e k)
     in writeRecord (formatFloat e) reading s)"

fun writeBatch :: "env \<Rightarrow> nat \<Rightarrow> state \<Rightarrow> state" where
  \<comment> \<open>\<^verbatim>\<open>for range batchSize { ... }\<close>\<close>
  "writeBatch e 0 s = s"
| "writeBatch e (Suc n) s = writeBatch e n (emit e s)"

definition Flush :: "state \<Rightarrow> state" where
  "Flush s = s\<lparr>flushed := length (written s)\<rparr>"

definition batchSize :: "int \<Rightarrow> int" where
  "batchSize rate =
    (let b = 1000;
         b = (if rate < b then rate else b);
         b = (if b < 1 then 1 else b)
     in b)"

definition to_int64 :: "float64 \<Rightarrow> int option" where
  \<comment> \<open>the conversion of a \<^verbatim>\<open>float64\<close> to \<^verbatim>\<open>int64\<close> discards the fraction; what it gives for
      a value that does not fit is left to the implementation (\<open>None\<close>)\<close>
  "to_int64 a = (case a of
       Finite x \<Rightarrow> (let n = (if 0 \<le> x then \<lfloor>x\<rfloor> else \<lceil>x\<rceil>)
                    in if - (2 ^ 63) \<le> n \<and> n < 2 ^ 63 then Some n else None)
     | _ \<Rightarrow> None)"

definition Second :: int where
  "Second = 1000000000"

definition tickInterval :: "int \<Rightarrow> int option" where
  \<comment> \<open>\<^verbatim>\<open>time.Duration(float64(time.Second) * float64(batchSize) / float64(*rate))\<close>,
      in nanoseconds\<close>
  "tickInterval rate =
     to_int64 (fdiv (fmul (float64_of_int Second) (float64_of_int (batchSize rate)))
                    (float64_of_int rate))"


section \<open>The lifecycle of \<^verbatim>\<open>main\<close>: \<^verbatim>\<open>select\<close>, deadline, final statistics\<close>

text \<open>
  Each pass of the outer \<^verbatim>\<open>for\<close> waits in a \<^verbatim>\<open>select\<close> on two channels. A \<^verbatim>\<open>select\<close>
  takes a case whose channel is ready; when several are ready the Go specification has it
  take one of them by a uniform pseudo-random choice. \<open>ready\<close> says which channels hold a
  value when the \<^verbatim>\<open>select\<close> runs, \<open>event\<close> which case it took; for the ticker case the
  event also carries the outcome of the test \<^verbatim>\<open>time.Now().After(endTime)\<close>.
\<close>

record ready =
  sigReady :: bool
  tickReady :: bool

datatype event = Signal | Tick bool

fun selects :: "ready \<Rightarrow> event \<Rightarrow> bool" where
  \<comment> \<open>the cases a \<^verbatim>\<open>select\<close> may take\<close>
  "selects r Signal = sigReady r"
| "selects r (Tick late) = tickReady r"

fun admissible :: "(ready \<times> event) list \<Rightarrow> bool" where
  \<comment> \<open>a schedule of the loop: every \<^verbatim>\<open>select\<close> takes a ready case, and a signal nobody
      has received stays in its channel\<close>
  "admissible [] = True"
| "admissible [(r, ev)] = selects r ev"
| "admissible ((r, ev) # (r', ev') # rest) =
     (selects r ev \<and> (sigReady r \<and> ev \<noteq> Signal \<longrightarrow> sigReady r') \<and> admissible ((r', ev') # rest))"

text \<open>
  \<^verbatim>\<open>printFinalStats\<close>. \<open>stat\<close> is what \<^verbatim>\<open>os.Stat\<close> returned: the size of the file, or
  \<open>None\<close> for an error, on which \<^verbatim>\<open>fi\<close> is \<^verbatim>\<open>nil\<close> and \<^verbatim>\<open>fi.Size()\<close> panics. The report holds
  the numbers that the function prints.
\<close>

record report =
  repTotal :: int
  repElapsed :: int
  repRate :: float64
  repSizeMB :: float64
  repAvgSize :: float64

definition quot :: "int \<Rightarrow> int \<Rightarrow> int" where
  \<comment> \<open>Go's integer division truncates toward zero\<close>
  "quot a b = sgn a * sgn b * (\<bar>a\<bar> div \<bar>b\<bar>)"

definition Seconds :: "int \<Rightarrow> float64" where
  \<comment> \<open>\<^verbatim>\<open>Duration.Seconds\<close>: \<^verbatim>\<open>sec := d / Second; nsec := d % Second;
      return float64(sec) + float64(nsec)/1e9\<close>\<close>
  "Seconds d =
    (let sec = quot d Second; nsec = d - Second * sec
     in fadd (float64_of_int sec) (fdiv (float64_of_int nsec) (f64 1000000000)))"

definition printFinalStats :: "int \<Rightarrow> int \<Rightarrow> int option \<Rightarrow> report option" where
  \<comment> \<open>\<open>tot\<close> is the parameter \<^verbatim>\<open>total\<close>, \<open>elapsed\<close> is \<^verbatim>\<open>time.Since(start)\<close> in
      nanoseconds; the result \<open>None\<close> is the panic\<close>
  "printFinalStats tot elapsed stat =
    (let rate = fdiv (float64_of_int tot) (Seconds elapsed)
     in case stat of
          None \<Rightarrow> None
        | Some sz \<Rightarrow>
            Some \<lparr>repTotal = tot, repElapsed = elapsed, repRate = rate,
                  repSizeMB = fdiv (float64_of_int sz) (f64 (1024 * 1024)),
                  repAvgSize = fdiv (float64_of_int sz) (float64_of_int tot)\<rparr>)"

definition is_finite :: "float64 \<Rightarrow> bool" where
  "is_finite a = (case a of Finite x \<Rightarrow> True | _ \<Rightarrow> False)"

definition guarded :: "report \<Rightarrow> bool" where
  \<comment> \<open>both averages are numbers\<close>
  "guarded rp = (is_finite (repRate rp) \<and> is_finite (repAvgSize rp))"

text \<open>
  The outer loop, run over the cases its \<^verbatim>\<open>select\<close>s took. It ends as \<open>Exited s n\<close> when a
  branch returned: \<open>n\<close> is the count handed to \<^verbatim>\<open>printFinalStats\<close>. It is \<open>Running s\<close> when
  the events are used up and the loop waits in its \<^verbatim>\<open>select\<close>. The periodic report of
  the verbose mode prints and changes neither the output nor the counter; it is left out.
\<close>

datatype run = Running state | Exited state int

fun mainLoop :: "int \<Rightarrow> env \<Rightarrow> nat \<Rightarrow> event list \<Rightarrow> state \<Rightarrow> run" where
  \<comment> \<open>\<open>duration\<close> is the flag \<^verbatim>\<open>-d\<close> in nanoseconds, \<open>b\<close> the batch size\<close>
  "mainLoop duration e b [] s = Running s"
| "mainLoop duration e b (Signal # evs) s = Exited (Flush s) (totalEntries s)"
| "mainLoop duration e b (Tick late # evs) s =
     (if 0 < duration \<and> late then Exited (Flush s) (totalEntries s)
      else mainLoop duration e b evs (Flush (writeBatch e b s)))"

definition start :: state where
  "start = \<lparr>written = [], flushed = 0, totalEntries = 0\<rparr>"

definition lines :: "string \<Rightarrow> nat" where
  \<comment> \<open>the number of line terminators\<close>
  "lines bs = length (filter (\<lambda>c. c = CHR 0x0A) bs)"

definition final :: "run \<Rightarrow> state" where
  "final r = (case r of Running s \<Rightarrow> s | Exited s n \<Rightarrow> s)"

section \<open>Inputs for the examples\<close>

definition maxUnit :: rat where
  \<comment> \<open>the largest \<^verbatim>\<open>float64\<close> below 1\<close>
  "maxUnit = 1 - 1 / 2 ^ 53"

definition draws0 :: draws where
  "draws0 = \<lparr>dType = 0, dPipeline = 3, dStatus = 4, dAlert = 0,
     dBase = Finite (1 / 2), dGate = Finite (1 / 2), dAnomaly = Finite (1 / 4), dSerial = 42,
     dQuality = Finite (1 / 2), dLat = Finite (1 / 2), dLon = Finite (1 / 2),
     dMile = Finite (1 / 2)\<rparr>"

definition env0 :: env where
  "env0 = \<lparr>fusedArith = False, formatFloat = (\<lambda>x. ''0''),
            clock = (\<lambda>k. ''2024-01-14T05:22:42.436377Z''), random = (\<lambda>k. draws0)\<rparr>"



definition both :: ready where
  "both = \<lparr>sigReady = True, tickReady = True\<rparr>"

definition drawsMax :: draws where
  \<comment> \<open>as \<open>draws0\<close>, every \<^verbatim>\<open>float64\<close> drawn after the anomaly test being the largest one\<close>
  "drawsMax = draws0\<lparr>dQuality := Finite maxUnit, dLat := Finite maxUnit,
     dLon := Finite maxUnit, dMile := Finite maxUnit\<rparr>"

definition drawsAnomaly :: draws where
  \<comment> \<open>as \<open>draws0\<close>, with a draw below 0.02 at the anomaly test\<close>
  "drawsAnomaly = draws0\<lparr>dGate := Finite (1 / 128)\<rparr>"

section \<open>Checks on a range of the table\<close>

definition range_ok :: "rat \<Rightarrow> rat \<Rightarrow> bool" where
  \<comment> \<open>the ends \<open>lo\<close> and \<open>hi\<close> of a range and their difference are \<^verbatim>\<open>float64\<close> values, and
      the rounded \<^verbatim>\<open>hi + hi*0.2\<close> does not exceed the exact \<open>1.2 * hi\<close>\<close>
  "range_ok lo hi =
    (rne53 lo = lo \<and> rne53 hi = hi \<and> rne53 (hi - lo) = hi - lo \<and>
     rne53 (rne53 (hi * rne53 (1 / 5)) + hi) \<le> hi * 6 / 5 \<and>
     rne53 (hi * rne53 (1 / 5) + hi) \<le> hi * 6 / 5 \<and>
     rne53 (hi * rne53 (1 / 5)) \<le> hi \<and>
     hi * 6 / 5 \<le> rne53 (hi * rne53 (6 / 5)) \<and>
     rne53 (hi * rne53 (6 / 5)) \<le> 2 * hi)"

section \<open>Rounding to nearest is monotone\<close>

lemma rne_floor_le: "\<lfloor>x\<rfloor> \<le> rne x"
  by (simp add: rne_def Let_def)

lemma rne_le_floor1: "rne x \<le> \<lfloor>x\<rfloor> + 1"
  by (simp add: rne_def Let_def)

lemma rne_of_int: "rne (of_int n) = n"
  by (simp add: rne_def Let_def)

lemma rne_mono:
  assumes "x \<le> y" shows "rne x \<le> rne y"
proof (cases "\<lfloor>x\<rfloor> = \<lfloor>y\<rfloor>")
  case True
  with assms have "x - of_int \<lfloor>x\<rfloor> \<le> y - of_int \<lfloor>y\<rfloor>" by simp
  with True show ?thesis by (auto simp: rne_def Let_def)
next
  case False
  with assms have "\<lfloor>x\<rfloor> < \<lfloor>y\<rfloor>" using floor_mono [of x y] by linarith
  then have "rne x \<le> \<lfloor>y\<rfloor>" using rne_le_floor1 [of x] by linarith
  then show ?thesis using rne_floor_le [of y] by linarith
qed

lemma rne_minus: "rne (- x) = - rne x"
proof (cases "x \<in> \<int>")
  case True
  then obtain n where n: "x = of_int n" by (auto elim: Ints_cases)
  have "rne (of_int (- n)) = - n" by (rule rne_of_int)
  then show ?thesis by (simp add: n rne_of_int)
next
  case False
  then have ne: "x \<noteq> of_int \<lfloor>x\<rfloor>" by (metis Ints_of_int)
  then have fl: "\<lfloor>- x\<rfloor> = - \<lfloor>x\<rfloor> - 1" by (simp add: floor_minus ceiling_altdef)
  have "x - of_int \<lfloor>x\<rfloor> \<noteq> 0" using ne by simp
  then show ?thesis unfolding rne_def Let_def fl by (auto simp: field_simps)
qed

lemma pow2_pos: "(0::rat) < 2 powi e"
  by (simp add: power_int_def)

lemma pow2_mono: "a \<le> b \<Longrightarrow> (2::rat) powi a \<le> 2 powi b"
  by (rule power_int_increasing) simp_all

lemma pow2_add: "(2::rat) powi (a + b) = 2 powi a * 2 powi b"
  by (rule power_int_add) simp

lemma pow2_diff: "(2::rat) powi (a - b) = 2 powi a / 2 powi b"
  by (rule power_int_diff) simp

lemma pow2_is_int: "0 \<le> e \<Longrightarrow> (2::rat) powi e = of_int (2 ^ nat e)"
  by (simp add: power_int_def)

text \<open>\<open>expo\<close> is the binary exponent.\<close>

lemma expo_bounds:
  assumes "x \<noteq> 0"
  shows "2 powi expo x \<le> \<bar>x\<bar>" and "\<bar>x\<bar> < 2 powi (expo x + 1)"
proof -
  obtain p q where pq: "quotient_of \<bar>x\<bar> = (p, q)" by force
  have q: "0 < q" using quotient_of_denom_pos [OF pq] .
  have ax: "\<bar>x\<bar> = of_int p / of_int q" using quotient_of_div [OF pq] .
  have "0 < \<bar>x\<bar>" using assms by simp
  then have p: "0 < p" using q unfolding ax by (simp add: zero_less_divide_iff)
  define bp where "bp = bitlen p"
  define bq where "bq = bitlen q"
  have bp1: "1 \<le> bp" using p bitlen_eq_zero_iff [of p] bitlen_nonneg [of p]
    unfolding bp_def by linarith
  have bq1: "1 \<le> bq" using q bitlen_eq_zero_iff [of q] bitlen_nonneg [of q]
    unfolding bq_def by linarith
  have "2 ^ nat (bp - 1) \<le> p" "p < 2 ^ nat bp" "2 ^ nat (bq - 1) \<le> q" "q < 2 ^ nat bq"
    using bitlen_bounds [OF p] bitlen_bounds [OF q] unfolding bp_def bq_def by simp_all
  then have "(of_int (2 ^ nat (bp - 1)) :: rat) \<le> of_int p"
      "(of_int p :: rat) < of_int (2 ^ nat bp)"
      "(of_int (2 ^ nat (bq - 1)) :: rat) \<le> of_int q"
      "(of_int q :: rat) < of_int (2 ^ nat bq)"
    unfolding of_int_le_iff of_int_less_iff by simp_all
  then have P: "(2::rat) powi (bp - 1) \<le> of_int p" "(of_int p :: rat) < 2 powi bp"
    and Q: "(2::rat) powi (bq - 1) \<le> of_int q" "(of_int q :: rat) < 2 powi bq"
    using bp1 bq1 by (simp_all add: pow2_is_int)
  have qpos: "(0::rat) < of_int q" using q by simp
  have lo: "(2::rat) powi (bp - bq - 1) \<le> \<bar>x\<bar>"
  proof -
    have "bp - bq - 1 = bp - 1 - bq" by simp
    then have "(2::rat) powi (bp - bq - 1) = 2 powi (bp - 1) / 2 powi bq"
      by (simp only: pow2_diff)
    also have "\<dots> \<le> of_int p / 2 powi bq"
      using P(1) pow2_pos [of bq] by (simp add: divide_right_mono)
    also have "\<dots> \<le> of_int p / of_int q"
      using Q(2) qpos p by (simp add: frac_le)
    finally show ?thesis unfolding ax .
  qed
  have hi: "\<bar>x\<bar> < (2::rat) powi (bp - bq + 1)"
  proof -
    have "of_int p / of_int q < (2::rat) powi bp / of_int q"
      using P(2) qpos by (simp add: divide_strict_right_mono)
    also have "\<dots> \<le> 2 powi bp / 2 powi (bq - 1)"
      using Q(1) pow2_pos [of "bq - 1"] pow2_pos [of bp] by (simp add: frac_le)
    also have "\<dots> = 2 powi (bp - (bq - 1))"
      by (simp only: pow2_diff)
    also have "bp - (bq - 1) = bp - bq + 1" by simp
    finally show ?thesis unfolding ax .
  qed
  have e: "expo x = (if 2 powi (bp - bq) \<le> \<bar>x\<bar> then bp - bq else bp - bq - 1)"
    unfolding expo_def pq bp_def bq_def by (simp add: Let_def)
  show "2 powi expo x \<le> \<bar>x\<bar>" using lo unfolding e by simp
  show "\<bar>x\<bar> < 2 powi (expo x + 1)" using hi unfolding e by (simp add: not_le)
qed

lemma expo_less:
  assumes "x \<noteq> 0" "\<bar>x\<bar> < 2 powi k" shows "expo x < k"
proof (rule ccontr)
  assume "\<not> expo x < k"
  then have "(2::rat) powi k \<le> 2 powi expo x" by (simp add: pow2_mono)
  then show False using expo_bounds(1) [OF assms(1)] assms(2) by linarith
qed

lemma expo_unique:
  assumes "2 powi e \<le> \<bar>x\<bar>" "\<bar>x\<bar> < 2 powi (e + 1)" shows "expo x = e"
proof -
  have "0 < \<bar>x\<bar>" using assms(1) pow2_pos [of e] by linarith
  then have x: "x \<noteq> 0" by simp
  have "expo x < e + 1" using expo_less [OF x assms(2)] .
  moreover have "\<not> expo x < e"
  proof
    assume "expo x < e"
    then have "(2::rat) powi (expo x + 1) \<le> 2 powi e" by (simp add: pow2_mono)
    then show False using expo_bounds(2) [OF x] assms(1) by linarith
  qed
  ultimately show ?thesis by simp
qed

lemma expo_minus: "expo (- x) = expo x"
  by (simp add: expo_def)

lemma expo_mono:
  assumes "0 < x" "x \<le> y" shows "expo x \<le> expo y"
proof (rule ccontr)
  assume "\<not> expo x \<le> expo y"
  then have "expo y + 1 \<le> expo x" by simp
  then have "(2::rat) powi (expo y + 1) \<le> 2 powi expo x" by (rule pow2_mono)
  moreover have "y < 2 powi (expo y + 1)" using expo_bounds(2) [of y] assms by simp
  moreover have "2 powi expo x \<le> x" using expo_bounds(1) [of x] assms by simp
  ultimately show False using assms by linarith
qed

lemma quantum_minus: "quantum (- x) = quantum x"
  by (simp add: quantum_def expo_minus)

lemma quantum_mono: "0 < x \<Longrightarrow> x \<le> y \<Longrightarrow> quantum x \<le> quantum y"
  using expo_mono [of x y] by (simp add: quantum_def)

lemma rne53_minus: "rne53 (- x) = - rne53 x"
  by (simp add: rne53_def quantum_minus rne_minus)

lemma rne53_zero: "rne53 0 = 0"
  by (simp add: rne53_def rne_def)

lemma rne53_nonneg:
  assumes "0 \<le> x" shows "0 \<le> rne53 x"
proof -
  have "0 \<le> x / 2 powi quantum x" using assms pow2_pos [of "quantum x"] by simp
  then have "rne 0 \<le> rne (x / 2 powi quantum x)" by (rule rne_mono)
  then have "0 \<le> rne (x / 2 powi quantum x)" using rne_of_int [of 0] by simp
  then show ?thesis using pow2_pos [of "quantum x"] by (simp add: rne53_def)
qed

lemma rne53_mono_pos:
  assumes "0 < x" "x \<le> y" shows "rne53 x \<le> rne53 y"
proof (cases "quantum x = quantum y")
  case True
  have "x / 2 powi quantum y \<le> y / 2 powi quantum y"
    using assms pow2_pos [of "quantum y"] by (simp add: divide_right_mono)
  then have "rne (x / 2 powi quantum y) \<le> rne (y / 2 powi quantum y)" by (rule rne_mono)
  then show ?thesis using pow2_pos [of "quantum y"] by (simp add: rne53_def True)
next
  case False
  then have lt: "quantum x < quantum y" using quantum_mono [OF assms] by simp
  then have qy: "quantum y = expo y - 52" and ex: "expo x < expo y"
    by (auto simp: quantum_def max_def split: if_splits)
  have y0: "0 < y" using assms by simp
  let ?N = "2 ^ nat (expo y - quantum x) :: int"
  have d: "0 \<le> expo y - quantum x" using lt qy by simp
  have "x < 2 powi (expo x + 1)" using expo_bounds(2) [of x] assms by simp
  also have "\<dots> \<le> 2 powi expo y" using ex by (simp add: pow2_mono)
  finally have "x / 2 powi quantum x \<le> 2 powi expo y / 2 powi quantum x"
    using pow2_pos [of "quantum x"] by (simp add: divide_right_mono)
  also have "\<dots> = of_int ?N"
    using d by (simp add: pow2_is_int power_int_diff [symmetric])
  finally have "rne (x / 2 powi quantum x) \<le> rne (of_int ?N)" by (rule rne_mono)
  then have "(of_int (rne (x / 2 powi quantum x)) :: rat) \<le> of_int ?N"
    unfolding rne_of_int of_int_le_iff .
  then have "rne53 x \<le> of_int ?N * 2 powi quantum x"
    using pow2_pos [of "quantum x"] unfolding rne53_def by (simp add: mult_right_mono)
  also have "of_int ?N = (2::rat) powi (expo y - quantum x)"
    using pow2_is_int [OF d] by simp
  also have "2 powi (expo y - quantum x) * 2 powi quantum x = (2::rat) powi expo y"
    using pow2_add [of "expo y - quantum x" "quantum x"] by simp
  finally have left: "rne53 x \<le> 2 powi expo y" .
  let ?M = "2 ^ 52 :: int"
  have "2 powi expo y \<le> y" using expo_bounds(1) [of y] y0 by simp
  then have "2 powi expo y / 2 powi quantum y \<le> y / 2 powi quantum y"
    using pow2_pos [of "quantum y"] by (simp add: divide_right_mono)
  moreover have "(2::rat) powi expo y / 2 powi quantum y = of_int ?M"
    unfolding qy by (simp add: power_int_diff [symmetric])
  ultimately have "rne (of_int ?M) \<le> rne (y / 2 powi quantum y)"
    using rne_mono by metis
  then have "(of_int ?M :: rat) \<le> of_int (rne (y / 2 powi quantum y))"
    unfolding rne_of_int of_int_le_iff .
  then have "of_int ?M * 2 powi quantum y \<le> rne53 y"
    using pow2_pos [of "quantum y"] unfolding rne53_def by (simp add: mult_right_mono)
  moreover have "of_int ?M * (2::rat) powi quantum y = 2 powi expo y"
    unfolding qy by (simp add: power_int_diff)
  ultimately have "2 powi expo y \<le> rne53 y" by simp
  with left show ?thesis by simp
qed

lemma rne53_mono:
  assumes "x \<le> y" shows "rne53 x \<le> rne53 y"
proof -
  consider "0 < x" | "x \<le> 0" "0 \<le> y" | "y < 0" by linarith
  then show ?thesis
  proof cases
    case 1
    then show ?thesis using assms by (rule rne53_mono_pos)
  next
    case 2
    have "0 \<le> rne53 (- x)" using 2 by (simp add: rne53_nonneg)
    then have "rne53 x \<le> 0" by (simp add: rne53_minus)
    then show ?thesis using rne53_nonneg [OF 2(2)] by simp
  next
    case 3
    have "rne53 (- y) \<le> rne53 (- x)" using 3 assms by (intro rne53_mono_pos) simp_all
    then show ?thesis by (simp add: rne53_minus)
  qed
qed

subsection \<open>Finite results\<close>

lemma huge_pos: "0 < huge"
  by (simp add: huge_def)

lemma le_huge: "x \<le> 2 ^ 64 \<Longrightarrow> x \<le> huge"
proof -
  have "(2::rat) ^ 64 \<le> 2 ^ 1023" by (rule power_increasing) simp_all
  then show "x \<le> 2 ^ 64 \<Longrightarrow> x \<le> huge" unfolding huge_def by (rule order_trans [rotated])
qed

lemma round64_Finite:
  assumes "\<bar>rne53 x\<bar> \<le> huge" shows "round64 x = Finite (rne53 x)"
proof (cases "rne53 x = 0")
  case True
  have "expo 0 < 1024" by code_simp
  then show ?thesis by (simp add: round64_def True)
next
  case False
  have "(2::rat) ^ 1023 < 2 ^ 1024" by (rule power_strict_increasing) simp_all
  then have "\<bar>rne53 x\<bar> < 2 ^ 1024" using assms unfolding huge_def by (rule le_less_trans [rotated])
  moreover have "(2::rat) powi 1024 = 2 ^ 1024" by (rule power_int_numeral)
  ultimately have "\<bar>rne53 x\<bar> < 2 powi 1024" by (simp only:)
  then have "expo (rne53 x) < 1024" by (rule expo_less [OF False])
  then show ?thesis by (simp add: round64_def)
qed

lemma round64_between:
  assumes "lo \<le> x" "x \<le> hi" "rne53 lo = lo'" "rne53 hi = hi'"
    and "- huge \<le> lo'" "hi' \<le> huge"
  shows "round64 x = Finite (rne53 x) \<and> lo' \<le> rne53 x \<and> rne53 x \<le> hi'"
proof -
  have "lo' \<le> rne53 x" using rne53_mono [OF assms(1)] assms(3) by simp
  moreover have "rne53 x \<le> hi'" using rne53_mono [OF assms(2)] assms(4) by simp
  ultimately show ?thesis using assms(5,6) by (simp add: round64_Finite)
qed

lemma f64_eval: "rne53 c = y \<Longrightarrow> \<bar>y\<bar> \<le> 2 ^ 64 \<Longrightarrow> f64 c = Finite y"
  using le_huge [of "\<bar>y\<bar>"] by (simp add: f64_def round64_Finite)

text \<open>An integer below \<open>2^53\<close> is a \<^verbatim>\<open>float64\<close>.\<close>

lemma rne53_of_int:
  assumes "0 \<le> n" "n < 2 ^ 53" shows "rne53 (of_int n) = of_int n"
proof (cases "n = 0")
  case True
  then show ?thesis by (simp add: rne53_zero)
next
  case False
  define x :: rat where "x = of_int n"
  have n1: "1 \<le> n" using assms False by simp
  have "(of_int 1 :: rat) \<le> of_int n" using n1 unfolding of_int_le_iff .
  then have x1: "1 \<le> x" by (simp add: x_def)
  have "(of_int n :: rat) < of_int (2 ^ 53)" using assms(2) unfolding of_int_less_iff .
  then have x53: "x < 2 ^ 53" by (simp add: x_def)
  have x0: "x \<noteq> 0" and ax: "\<bar>x\<bar> = x" using x1 by simp_all
  have "(2::rat) powi 53 = 2 ^ 53" by (rule power_int_numeral)
  then have "\<bar>x\<bar> < 2 powi 53" using x53 ax by simp
  then have e53: "expo x < 53" by (rule expo_less [OF x0])
  have "\<not> expo x < 0"
  proof
    assume "expo x < 0"
    then have "(2::rat) powi (expo x + 1) \<le> 2 powi 0" by (intro pow2_mono) simp
    then show False using expo_bounds(2) [OF x0] x1 ax by simp
  qed
  then have e0: "0 \<le> expo x" by simp
  define k where "k = 52 - expo x"
  have k: "0 \<le> k" and q: "quantum x = - k" using e53 e0 by (simp_all add: quantum_def k_def)
  have inv: "(2::rat) powi k * 2 powi (- k) = 1"
    using pow2_add [of k "- k"] by simp
  have "x / 2 powi (- k) = x * 2 powi k"
    by (simp add: power_int_minus field_simps)
  also have "\<dots> = of_int (n * 2 ^ nat k)"
    using k by (simp add: x_def pow2_is_int)
  finally have "rne (x / 2 powi (- k)) = n * 2 ^ nat k" by (simp only: rne_of_int)
  then have "rne53 x = of_int (n * 2 ^ nat k) * 2 powi (- k)" by (simp add: rne53_def q)
  also have "of_int (n * 2 ^ nat k) = x * 2 powi k"
    using k by (simp add: x_def pow2_is_int)
  also have "x * 2 powi k * 2 powi (- k) = x * (2 powi k * 2 powi (- k))" by simp
  also have "\<dots> = x" by (simp only: inv mult_1_right)
  finally show ?thesis unfolding x_def .
qed

lemma float64_of_int_Finite:
  assumes "0 \<le> n" "n < 2 ^ 53" shows "float64_of_int n = Finite (of_int n)"
proof -
  have "(of_int n :: rat) < of_int (2 ^ 53)" using assms(2) unfolding of_int_less_iff .
  then have "\<bar>of_int n :: rat\<bar> \<le> 2 ^ 64" using assms(1) by simp
  then have "\<bar>rne53 (of_int n)\<bar> \<le> huge" by (simp only: rne53_of_int [OF assms] le_huge)
  then show ?thesis by (simp add: float64_of_int_def round64_Finite rne53_of_int [OF assms])
qed

lemma pw53: "(2::rat) powi (- 53) = 1 / 2 ^ 53"
  using power_int_minus_divide [of "2::rat" 53] by simp

lemma unit_le_maxUnit:
  assumes "rne53 x = x" "0 \<le> x" "x < 1" shows "x \<le> maxUnit"
proof (rule ccontr)
  assume "\<not> x \<le> maxUnit"
  then have gt: "1 - 1 / 2 ^ 53 < x" by (simp add: maxUnit_def)
  have "(1::rat) / 2 \<le> 1 - 1 / 2 ^ 53" by simp
  then have "1 / 2 \<le> x" using gt by linarith
  then have "2 powi (- 1) \<le> \<bar>x\<bar>" "\<bar>x\<bar> < 2 powi (- 1 + 1)" using assms by simp_all
  then have "expo x = - 1" by (rule expo_unique)
  then have q: "quantum x = - 53" by (simp add: quantum_def)
  define k where "k = rne (x / 2 powi (- 53))"
  have "rne53 x = of_int k * 2 powi (- 53)" by (simp add: rne53_def q k_def)
  then have xk: "x = of_int k / 2 ^ 53"
    unfolding assms(1) by (simp only: pw53 times_divide_eq_right mult_1_right)
  have "(of_int k :: rat) / 2 ^ 53 < 1" using assms(3) xk by simp
  then have "(of_int k :: rat) < 2 ^ 53" by simp
  then have "(of_int k :: rat) < of_int (2 ^ 53)" by simp
  then have "k < 2 ^ 53" unfolding of_int_less_iff .
  moreover have "1 - 1 / 2 ^ 53 < (of_int k :: rat) / 2 ^ 53" using gt xk by simp
  then have "(2::rat) ^ 53 - 1 < of_int k" by (simp add: field_simps)
  then have "(of_int (2 ^ 53 - 1) :: rat) < of_int k" by simp
  then have "2 ^ 53 - 1 < k" unfolding of_int_less_iff .
  ultimately show False by simp
qed

lemma is_unitE:
  assumes "is_unit u"
  obtains x where "u = Finite x" "0 \<le> x" "x \<le> maxUnit" "x < 1"
  using assms unit_le_maxUnit by (auto simp: is_unit_def split: float64.splits)

lemma rne53_abs_le:
  assumes "\<bar>x\<bar> \<le> of_int n" "0 \<le> n" "n < 2 ^ 53" shows "\<bar>rne53 x\<bar> \<le> of_int n"
proof -
  have "rne53 x \<le> rne53 (of_int n)" using assms(1) by (intro rne53_mono) simp
  moreover have "rne53 (- of_int n) \<le> rne53 x" using assms(1) by (intro rne53_mono) simp
  ultimately show ?thesis by (simp add: rne53_minus rne53_of_int [OF assms(2,3)] abs_le_iff)
qed

lemma f64_Finite:
  assumes "\<bar>c\<bar> \<le> 2 ^ 52" shows "f64 c = Finite (rne53 c)"
proof -
  have "\<bar>c\<bar> \<le> of_int (2 ^ 52)" using assms by simp
  then have "\<bar>rne53 c\<bar> \<le> of_int (2 ^ 52)" by (rule rne53_abs_le) simp_all
  then have "\<bar>rne53 c\<bar> \<le> 2 ^ 64" by simp
  then show ?thesis by (simp add: f64_def round64_Finite le_huge)
qed

lemma mulAdd_between:
  assumes a: "0 \<le> a" "a \<le> A" and b: "0 \<le> b"
    and c: "rne53 c = c" and p: "rne53 (A * b) = p"
    and hi: "rne53 (p + c) \<le> hi" "rne53 (A * b + c) \<le> hi"
    and sz: "- huge \<le> c" "p \<le> huge" "hi \<le> huge"
  shows "\<exists>y. mulAdd fused (Finite a) (Finite b) (Finite c) = Finite y \<and> c \<le> y \<and> y \<le> hi"
proof (cases fused)
  case True
  have "c \<le> a * b + c" "a * b + c \<le> A * b + c"
    using a b by (simp_all add: mult_right_mono)
  then have "round64 (a * b + c) = Finite (rne53 (a * b + c)) \<and>
      c \<le> rne53 (a * b + c) \<and> rne53 (a * b + c) \<le> rne53 (A * b + c)"
    using c sz hi by (intro round64_between) simp_all
  then show ?thesis using True hi by (simp add: mulAdd_def fma_def)
next
  case False
  have "0 \<le> a * b" "a * b \<le> A * b" using a b by (simp_all add: mult_right_mono)
  then have t: "round64 (a * b) = Finite (rne53 (a * b)) \<and>
      0 \<le> rne53 (a * b) \<and> rne53 (a * b) \<le> p"
    using sz huge_pos by (intro round64_between [OF _ _ rne53_zero p]) simp_all
  define t where "t = rne53 (a * b)"
  have "c \<le> t + c" "t + c \<le> p + c" using t by (simp_all add: t_def)
  then have "round64 (t + c) = Finite (rne53 (t + c)) \<and>
      c \<le> rne53 (t + c) \<and> rne53 (t + c) \<le> rne53 (p + c)"
    using c sz hi by (intro round64_between) simp_all
  then show ?thesis using False hi t by (simp add: mulAdd_def fmul_def t_def)
qed

lemma Quality_generateReading:
  "Quality (generateReading fused now d) = mulAdd fused (dQuality d) (f64 (3 / 20)) (f64 (17 / 20))"
  by (simp add: generateReading_def Let_def case_prod_beta)

lemma quality_range:
  assumes "is_unit u"
  shows "\<exists>y. mulAdd fused u (f64 (3 / 20)) (f64 (17 / 20)) = Finite y \<and> rne53 (17 / 20) \<le> y \<and> y \<le> 1"
proof -
  obtain x where x: "u = Finite x" "0 \<le> x" "x < 1" using assms by (rule is_unitE)
  have k: "f64 (3 / 20) = Finite (rne53 (3 / 20))" "f64 (17 / 20) = Finite (rne53 (17 / 20))"
    by (simp_all add: f64_Finite)
  have "\<exists>y. mulAdd fused (Finite x) (Finite (rne53 (3 / 20))) (Finite (rne53 (17 / 20))) = Finite y
      \<and> rne53 (17 / 20) \<le> y \<and> y \<le> 1"
  proof (rule mulAdd_between [where A = 1 and p = "rne53 (3 / 20)"])
    show "0 \<le> x" "x \<le> 1" using x by simp_all
    show "0 \<le> rne53 (3 / 20)" by (simp add: rne53_nonneg)
    show "rne53 (rne53 (17 / 20)) = rne53 (17 / 20)" by code_simp
    show "rne53 (1 * rne53 (3 / 20)) = rne53 (3 / 20)" by code_simp
    show "rne53 (rne53 (3 / 20) + rne53 (17 / 20)) \<le> 1" by code_simp
    show "rne53 (1 * rne53 (3 / 20) + rne53 (17 / 20)) \<le> 1" by code_simp
    show "- huge \<le> rne53 (17 / 20)" using huge_pos rne53_nonneg [of "17 / 20"] by simp
    have "rne53 (3 / 20) \<le> 2 ^ 64" by code_simp
    then show "rne53 (3 / 20) \<le> huge" by (rule le_huge)
    show "1 \<le> huge" by (simp add: le_huge)
  qed
  then show ?thesis by (simp add: x k)
qed


lemma valid_draws0: "valid_draws draws0"
  by code_simp

section \<open>The quality score\<close>

text \<open>
  C7, as stated: the quality score of a reading is strictly below 1.0. It is not: when
  the draw is the largest \<^verbatim>\<open>float64\<close> below 1, \<^verbatim>\<open>0.85 + u*0.15\<close> rounds to 1.0 exactly, with
  separate operations and with a fused multiply-add alike.
\<close>

theorem quality_reaches_one:
  "valid_draws drawsMax \<and>
   Quality (generateReading False (clock env0 0) drawsMax) = Finite 1 \<and>
   Quality (generateReading True (clock env0 0) drawsMax) = Finite 1 \<and>
   \<not> flt (Quality (generateReading False (clock env0 0) drawsMax)) (f64 1)"
proof -
  have v: "valid_draws drawsMax" by code_simp
  have q: "mulAdd False (Finite maxUnit) (f64 (3 / 20)) (f64 (17 / 20)) = Finite 1"
      "mulAdd True (Finite maxUnit) (f64 (3 / 20)) (f64 (17 / 20)) = Finite 1"
    by code_simp+
  have one: "f64 1 = Finite 1" by code_simp
  show ?thesis using v q by (simp add: Quality_generateReading drawsMax_def one)
qed

text \<open>
  C7, amended: for every reading produced by \<^verbatim>\<open>generateReading\<close> the quality score lies
  within the closed interval \<open>[0.85, 1.0]\<close> of \<^verbatim>\<open>float64\<close> values: it is at least the
  constant 0.85 and at most 1.0.
\<close>

theorem quality_closed:
  assumes "valid_draws d"
  shows "fle (f64 (17 / 20)) (Quality (generateReading fused now d)) \<and>
         fle (Quality (generateReading fused now d)) (f64 1)"
proof -
  have "is_unit (dQuality d)" using assms by (simp add: valid_draws_def)
  then obtain y where "mulAdd fused (dQuality d) (f64 (3 / 20)) (f64 (17 / 20)) = Finite y"
      "rne53 (17 / 20) \<le> y" "y \<le> 1"
    using quality_range by blast
  moreover have "f64 (17 / 20) = Finite (rne53 (17 / 20))" "f64 1 = Finite 1"
    by (simp_all add: f64_Finite) code_simp
  ultimately show ?thesis by (simp add: Quality_generateReading)
qed

text \<open>C7, amended, at the draws \<open>draws0\<close>.\<close>

theorem quality_closed_witness:
  "valid_draws draws0 \<and>
   fle (f64 (17 / 20)) (Quality (generateReading False (clock env0 0) draws0)) \<and>
   fle (Quality (generateReading False (clock env0 0) draws0)) (f64 1)"
  using quality_closed [OF valid_draws0, of False "clock env0 0"] valid_draws0 by simp


section \<open>The location\<close>

lemma Location_generateReading:
  "Lat (Location (generateReading fused now d)) = mulAdd fused (dLat d) (f64 20) (f64 25)"
  "Lon (Location (generateReading fused now d)) = mulAdd fused (dLon d) (f64 15) (f64 (- 105))"
  "MilePost (Location (generateReading fused now d)) = fmul (dMile d) (f64 500)"
  by (simp_all add: generateReading_def Let_def case_prod_beta)

lemma f64_consts:
  "f64 0 = Finite 0" "f64 1 = Finite 1" "f64 15 = Finite 15" "f64 20 = Finite 20"
  "f64 25 = Finite 25" "f64 45 = Finite 45" "f64 500 = Finite 500"
  "f64 (- 105) = Finite (- 105)" "f64 (- 90) = Finite (- 90)"
  by code_simp+

lemma lat_range:
  assumes "is_unit u"
  shows "\<exists>y. mulAdd fused u (f64 20) (f64 25) = Finite y \<and> 25 \<le> y \<and> y \<le> 45"
proof -
  obtain x where x: "u = Finite x" "0 \<le> x" "x < 1" using assms by (rule is_unitE)
  have "\<exists>y. mulAdd fused (Finite x) (Finite 20) (Finite 25) = Finite y \<and> 25 \<le> y \<and> y \<le> 45"
  proof (rule mulAdd_between [where A = 1 and p = 20])
    show "0 \<le> x" "x \<le> 1" using x by simp_all
    show "rne53 25 = 25" "rne53 (1 * 20) = 20" "rne53 (20 + 25) \<le> 45"
      "rne53 (1 * 20 + 25) \<le> 45" by code_simp+
    show "- huge \<le> 25" using huge_pos by simp
  qed (simp_all add: le_huge)
  then show ?thesis by (simp add: x f64_consts)
qed

lemma lon_range:
  assumes "is_unit u"
  shows "\<exists>y. mulAdd fused u (f64 15) (f64 (- 105)) = Finite y \<and> - 105 \<le> y \<and> y \<le> - 90"
proof -
  obtain x where x: "u = Finite x" "0 \<le> x" "x < 1" using assms by (rule is_unitE)
  have "\<exists>y. mulAdd fused (Finite x) (Finite 15) (Finite (- 105)) = Finite y
      \<and> - 105 \<le> y \<and> y \<le> - 90"
  proof (rule mulAdd_between [where A = 1 and p = 15])
    show "0 \<le> x" "x \<le> 1" using x by simp_all
    show "rne53 (- 105) = - 105" "rne53 (1 * 15) = 15" "rne53 (15 + - 105) \<le> - 90"
      "rne53 (1 * 15 + - 105) \<le> - 90" by code_simp+
    have "(105::rat) \<le> huge" by (simp add: le_huge)
    then show "- huge \<le> - 105" by simp
    have "(- 90::rat) \<le> 2 ^ 64" by simp
    then show "- 90 \<le> huge" by (rule le_huge)
  qed (simp_all add: le_huge)
  then show ?thesis by (simp add: x f64_consts)
qed

lemma mile_range:
  assumes "is_unit u"
  shows "\<exists>y. fmul u (f64 500) = Finite y \<and> 0 \<le> y \<and> y < 500"
proof -
  obtain x where x: "u = Finite x" "0 \<le> x" "x \<le> maxUnit" using assms by (rule is_unitE)
  have top: "rne53 (maxUnit * 500) = 500 - 1 / 2 ^ 44" by code_simp
  have "0 \<le> x * 500" "x * 500 \<le> maxUnit * 500" using x by simp_all
  moreover have "(500::rat) - 1 / 2 ^ 44 \<le> 2 ^ 64" by simp
  then have "(500::rat) - 1 / 2 ^ 44 \<le> huge" by (rule le_huge)
  ultimately have "round64 (x * 500) = Finite (rne53 (x * 500)) \<and>
      0 \<le> rne53 (x * 500) \<and> rne53 (x * 500) \<le> 500 - 1 / 2 ^ 44"
    using huge_pos by (intro round64_between [OF _ _ rne53_zero top]) simp_all
  moreover have "(500::rat) - 1 / 2 ^ 44 < 500" by simp
  ultimately show ?thesis by (simp add: x f64_consts fmul_def)
qed

text \<open>
  C10, as stated: the latitude is strictly below 45.0 and the longitude strictly below
  -90.0. They are not: when the draw is the largest \<^verbatim>\<open>float64\<close> below 1, \<^verbatim>\<open>25.0 + u*20\<close>
  rounds to 45.0 and \<^verbatim>\<open>-105.0 + u*15\<close> rounds to -90.0, with separate operations and with a
  fused multiply-add alike.
\<close>

theorem location_reaches_upper_ends:
  "valid_draws drawsMax \<and>
   Lat (Location (generateReading False (clock env0 0) drawsMax)) = Finite 45 \<and>
   Lat (Location (generateReading True (clock env0 0) drawsMax)) = Finite 45 \<and>
   Lon (Location (generateReading False (clock env0 0) drawsMax)) = Finite (- 90) \<and>
   Lon (Location (generateReading True (clock env0 0) drawsMax)) = Finite (- 90) \<and>
   \<not> flt (Lat (Location (generateReading False (clock env0 0) drawsMax))) (f64 45) \<and>
   \<not> flt (Lon (Location (generateReading False (clock env0 0) drawsMax))) (f64 (- 90))"
proof -
  have v: "valid_draws drawsMax" by code_simp
  have q: "mulAdd False (Finite maxUnit) (f64 20) (f64 25) = Finite 45"
      "mulAdd True (Finite maxUnit) (f64 20) (f64 25) = Finite 45"
      "mulAdd False (Finite maxUnit) (f64 15) (f64 (- 105)) = Finite (- 90)"
      "mulAdd True (Finite maxUnit) (f64 15) (f64 (- 105)) = Finite (- 90)"
    by code_simp+
  show ?thesis using v q by (simp add: Location_generateReading drawsMax_def f64_consts)
qed

text \<open>
  C10, amended: for every reading produced by \<^verbatim>\<open>generateReading\<close> the latitude lies in
  the closed interval \<open>[25.0, 45.0]\<close>, the longitude in the closed interval
  \<open>[-105.0, -90.0]\<close>, and the mile post in \<open>[0, 500)\<close>.
\<close>

theorem location_bounds:
  fixes fused :: bool and now :: string and d :: draws
  assumes "valid_draws d"
  defines "loc \<equiv> Location (generateReading fused now d)"
  shows "fle (f64 25) (Lat loc) \<and> fle (Lat loc) (f64 45) \<and>
         fle (f64 (- 105)) (Lon loc) \<and> fle (Lon loc) (f64 (- 90)) \<and>
         fle (f64 0) (MilePost loc) \<and> flt (MilePost loc) (f64 500)"
proof -
  have u: "is_unit (dLat d)" "is_unit (dLon d)" "is_unit (dMile d)"
    using assms(1) by (simp_all add: valid_draws_def)
  obtain la where la: "Lat loc = Finite la" "25 \<le> la" "la \<le> 45"
    using lat_range [OF u(1), of fused] by (auto simp: loc_def Location_generateReading)
  obtain lo where lo: "Lon loc = Finite lo" "- 105 \<le> lo" "lo \<le> - 90"
    using lon_range [OF u(2), of fused] by (auto simp: loc_def Location_generateReading)
  obtain mp where mp: "MilePost loc = Finite mp" "0 \<le> mp" "mp < 500"
    using mile_range [OF u(3)] by (auto simp: loc_def Location_generateReading)
  show ?thesis by (simp add: la lo mp f64_consts)
qed

text \<open>C10, amended, at the draws \<open>draws0\<close>.\<close>

theorem location_bounds_witness:
  "valid_draws draws0 \<and>
   fle (f64 25) (Lat (Location (generateReading False (clock env0 0) draws0))) \<and>
   fle (Lat (Location (generateReading False (clock env0 0) draws0))) (f64 45) \<and>
   fle (f64 (- 105)) (Lon (Location (generateReading False (clock env0 0) draws0))) \<and>
   fle (Lon (Location (generateReading False (clock env0 0) draws0))) (f64 (- 90)) \<and>
   fle (f64 0) (MilePost (Location (generateReading False (clock env0 0) draws0))) \<and>
   flt (MilePost (Location (generateReading False (clock env0 0) draws0))) (f64 500)"
  using location_bounds [OF valid_draws0, of False "clock env0 0"] valid_draws0 by simp


section \<open>The value and the anomaly override\<close>

lemma Value_generateReading:
  "Value (generateReading fused now d) =
    (let st = sensorTypes ! Intn (dType d) (length sensorTypes)
     in if anomalous d
        then mulAdd fused (fmul (dAnomaly d) (stMax st)) (f64 (1 / 5)) (stMax st)
        else mulAdd fused (dBase d) (fsub (stMax st) (stMin st)) (stMin st))"
  by (simp add: generateReading_def Let_def case_prod_beta)


lemma Intn_less: "0 < n \<Longrightarrow> Intn raw n < n"
  by (simp add: Intn_def)

lemma selected_profile: "sensorTypes ! Intn raw (length sensorTypes) \<in> set sensorTypes"
  by (rule nth_mem, rule Intn_less) (simp add: sensorTypes_def)

text \<open>The ranges of the table, and what the rounded operations give at their ends.\<close>

lemma f64_table:
  "f64 200 = Finite 200" "f64 1500 = Finite 1500" "f64 (- 20) = Finite (- 20)"
  "f64 180 = Finite 180" "f64 50000 = Finite 50000" "f64 50 = Finite 50"
  "f64 100 = Finite 100" "f64 1000 = Finite 1000"
  by code_simp+

lemma sensorTypes_cases:
  assumes "st \<in> set sensorTypes"
  obtains lo hi where "stMin st = Finite lo" "stMax st = Finite hi"
    "(lo, hi) \<in> {(200, 1500), (- 20, 180), (0, 50000), (0, 25), (0, 50), (0, 100), (0, 1000)}"
  using assms by (auto simp: sensorTypes_def f64_table f64_consts)


lemma table_ok:
  fixes lo hi :: rat
  assumes "(lo, hi) \<in> {(200, 1500), (- 20, 180), (0, 50000), (0, 25), (0, 50), (0, 100), (0, 1000)}"
  shows "range_ok lo hi"
proof -
  have "range_ok 200 1500" by code_simp
  moreover have "range_ok (- 20) 180" by code_simp
  moreover have "range_ok 0 50000" by code_simp
  moreover have "range_ok 0 25" by code_simp
  moreover have "range_ok 0 50" by code_simp
  moreover have "range_ok 0 100" by code_simp
  moreover have "range_ok 0 1000" by code_simp
  ultimately show ?thesis using assms by auto
qed

lemma table_order:
  fixes lo hi :: rat
  assumes "(lo, hi) \<in> {(200, 1500), (- 20, 180), (0, 50000), (0, 25), (0, 50), (0, 100), (0, 1000)}"
  shows "lo \<le> hi" "0 \<le> hi" "\<bar>lo\<bar> \<le> 2 ^ 63" "hi \<le> 2 ^ 63" "2 * hi \<le> 2 ^ 64"
  using assms by auto

lemma selected_range:
  obtains lo hi where
    "stMin (sensorTypes ! Intn raw (length sensorTypes)) = Finite lo"
    "stMax (sensorTypes ! Intn raw (length sensorTypes)) = Finite hi"
    "range_ok lo hi" "lo \<le> hi" "0 \<le> hi" "\<bar>lo\<bar> \<le> 2 ^ 63" "hi \<le> 2 ^ 63" "2 * hi \<le> 2 ^ 64"
  using sensorTypes_cases [OF selected_profile [of raw]] table_ok table_order by metis

lemma normal_value:
  assumes u: "is_unit u" and ok: "range_ok lo hi"
    and ord: "lo \<le> hi" "\<bar>lo\<bar> \<le> 2 ^ 63" "hi \<le> 2 ^ 63"
  shows "\<exists>y. mulAdd fused u (fsub (Finite hi) (Finite lo)) (Finite lo) = Finite y \<and> lo \<le> y \<and> y \<le> hi"
proof -
  obtain x where x: "u = Finite x" "0 \<le> x" "x < 1" using u by (rule is_unitE)
  have r: "rne53 lo = lo" "rne53 hi = hi" "rne53 (hi - lo) = hi - lo"
    using ok by (simp_all add: range_ok_def)
  have "\<bar>hi - lo\<bar> \<le> 2 ^ 64" using ord by simp
  then have "\<bar>rne53 (hi - lo)\<bar> \<le> huge" unfolding r by (rule le_huge)
  then have d: "fsub (Finite hi) (Finite lo) = Finite (hi - lo)"
    using r by (simp add: fsub_def round64_Finite)
  have "\<exists>y. mulAdd fused (Finite x) (Finite (hi - lo)) (Finite lo) = Finite y \<and> lo \<le> y \<and> y \<le> hi"
  proof (rule mulAdd_between [where A = 1 and p = "hi - lo"])
    show "0 \<le> x" "x \<le> 1" using x by simp_all
    show "0 \<le> hi - lo" using ord by simp
    show "rne53 lo = lo" by (rule r)
    show "rne53 (1 * (hi - lo)) = hi - lo" using r by simp
    show "rne53 (hi - lo + lo) \<le> hi" "rne53 (1 * (hi - lo) + lo) \<le> hi" using r by simp_all
    have "- lo \<le> 2 ^ 64" using ord by simp
    then have "- lo \<le> huge" by (rule le_huge)
    then show "- huge \<le> lo" by simp
    have "hi - lo \<le> 2 ^ 64" using ord by simp
    then show "hi - lo \<le> huge" by (rule le_huge)
    show "hi \<le> huge" using ord by (simp add: le_huge)
  qed
  then show ?thesis by (simp add: x d)
qed

lemma anomaly_value:
  assumes u: "is_unit u" and ok: "range_ok lo hi" and ord: "0 \<le> hi" "hi \<le> 2 ^ 63" "2 * hi \<le> 2 ^ 64"
  shows "\<exists>y. mulAdd fused (fmul u (Finite hi)) (f64 (1 / 5)) (Finite hi) = Finite y
      \<and> hi \<le> y \<and> y \<le> hi * 6 / 5"
proof -
  obtain x where x: "u = Finite x" "0 \<le> x" "x < 1" using u by (rule is_unitE)
  have r: "rne53 hi = hi" "rne53 (rne53 (hi * rne53 (1 / 5)) + hi) \<le> hi * 6 / 5"
      "rne53 (hi * rne53 (1 / 5) + hi) \<le> hi * 6 / 5" "rne53 (hi * rne53 (1 / 5)) \<le> hi"
    using ok by (simp_all add: range_ok_def)
  have hh: "hi \<le> huge" using ord by (simp add: le_huge)
  have "0 \<le> x * hi" "x * hi \<le> hi" using x ord by (simp_all add: mult_left_le_one_le)
  then have t: "round64 (x * hi) = Finite (rne53 (x * hi)) \<and> 0 \<le> rne53 (x * hi) \<and> rne53 (x * hi) \<le> hi"
    using huge_pos hh by (intro round64_between [OF _ _ rne53_zero r(1)]) simp_all
  have c: "f64 (1 / 5) = Finite (rne53 (1 / 5))" by (simp add: f64_Finite)
  have "hi * 6 / 5 \<le> 2 * hi" using ord by simp
  then have "hi * 6 / 5 \<le> 2 ^ 64" using ord by simp
  then have h65: "hi * 6 / 5 \<le> huge" by (rule le_huge)
  have "\<exists>y. mulAdd fused (Finite (rne53 (x * hi))) (Finite (rne53 (1 / 5))) (Finite hi) = Finite y
      \<and> hi \<le> y \<and> y \<le> hi * 6 / 5"
  proof (rule mulAdd_between [where A = hi and p = "rne53 (hi * rne53 (1 / 5))"])
    show "0 \<le> rne53 (x * hi)" "rne53 (x * hi) \<le> hi" using t by simp_all
    show "0 \<le> rne53 (1 / 5)" by (simp add: rne53_nonneg)
    show "rne53 hi = hi" by (rule r)
    show "rne53 (hi * rne53 (1 / 5)) = rne53 (hi * rne53 (1 / 5))" by simp
    show "rne53 (rne53 (hi * rne53 (1 / 5)) + hi) \<le> hi * 6 / 5"
      "rne53 (hi * rne53 (1 / 5) + hi) \<le> hi * 6 / 5" by (rule r)+
    show "- huge \<le> hi" using huge_pos ord by simp
    show "rne53 (hi * rne53 (1 / 5)) \<le> huge" using r(4) hh by simp
    show "hi * 6 / 5 \<le> huge" by (rule h65)
  qed
  then show ?thesis using t by (simp add: x c fmul_def)
qed

lemma scaled_max:
  assumes ok: "range_ok lo hi" and ord: "0 \<le> hi" "2 * hi \<le> 2 ^ 64" and y: "y \<le> hi * 6 / 5"
  shows "fle (Finite y) (fmul (Finite hi) (f64 (6 / 5)))"
proof -
  have r: "hi * 6 / 5 \<le> rne53 (hi * rne53 (6 / 5))" "rne53 (hi * rne53 (6 / 5)) \<le> 2 * hi"
    using ok by (simp_all add: range_ok_def)
  have c: "f64 (6 / 5) = Finite (rne53 (6 / 5))" by (simp add: f64_Finite)
  have "0 \<le> rne53 (hi * rne53 (6 / 5))" using ord by (simp add: rne53_nonneg)
  then have "\<bar>rne53 (hi * rne53 (6 / 5))\<bar> \<le> 2 ^ 64" using r(2) ord by simp
  then have "round64 (hi * rne53 (6 / 5)) = Finite (rne53 (hi * rne53 (6 / 5)))"
    by (intro round64_Finite le_huge)
  then show ?thesis using r(1) y by (simp add: fmul_def c)
qed



text \<open>
  C2: for every reading produced by \<^verbatim>\<open>generateReading\<close>, with \<open>lo\<close> and \<open>hi\<close> the minimum
  and the maximum of the selected entry of the table: when the anomaly branch is not
  taken the value lies within \<open>[lo, hi]\<close>; when it is taken the value lies within
  \<open>[hi, 1.2 * hi]\<close>, and is also not above the \<^verbatim>\<open>float64\<close> product \<^verbatim>\<open>st.Max * 1.2\<close>.
\<close>

theorem value_ranges:
  fixes fused :: bool and now :: string and d :: draws
  assumes "valid_draws d"
  defines "st \<equiv> sensorTypes ! Intn (dType d) (length sensorTypes)"
    and "r \<equiv> generateReading fused now d"
  shows "\<exists>lo hi v. stMin st = Finite lo \<and> stMax st = Finite hi \<and> Value r = Finite v \<and>
           (\<not> anomalous d \<longrightarrow> lo \<le> v \<and> v \<le> hi) \<and>
           (anomalous d \<longrightarrow> hi \<le> v \<and> v \<le> hi * 6 / 5 \<and>
              fle (Value r) (fmul (stMax st) (f64 (6 / 5))))"
proof -
  have u: "is_unit (dBase d)" "is_unit (dAnomaly d)"
    using assms(1) by (simp_all add: valid_draws_def)
  obtain lo hi where t: "stMin st = Finite lo" "stMax st = Finite hi" "range_ok lo hi"
      "lo \<le> hi" "0 \<le> hi" "\<bar>lo\<bar> \<le> 2 ^ 63" "hi \<le> 2 ^ 63" "2 * hi \<le> 2 ^ 64"
    unfolding st_def by (rule selected_range [of "dType d"])
  show ?thesis
  proof (cases "anomalous d")
    case True
    obtain y where y: "mulAdd fused (fmul (dAnomaly d) (Finite hi)) (f64 (1 / 5)) (Finite hi) = Finite y"
        "hi \<le> y" "y \<le> hi * 6 / 5"
      using anomaly_value [OF u(2) t(3,5,7,8), of fused] by blast
    have v: "Value r = Finite y"
      using True y(1) t(2) by (simp add: r_def Value_generateReading Let_def st_def [symmetric])
    have "fle (Finite y) (fmul (Finite hi) (f64 (6 / 5)))"
      using t(3,5,8) y(3) by (rule scaled_max)
    then show ?thesis using True y t(1,2) v by simp
  next
    case False
    obtain y where y: "mulAdd fused (dBase d) (fsub (Finite hi) (Finite lo)) (Finite lo) = Finite y"
        "lo \<le> y" "y \<le> hi"
      using normal_value [OF u(1) t(3,4,6,7), of fused] by blast
    have v: "Value r = Finite y"
      using False y(1) t(1,2) by (simp add: r_def Value_generateReading Let_def st_def [symmetric])
    show ?thesis using False y t(1,2) v by simp
  qed
qed

text \<open>C2 at the draws \<open>draws0\<close> (no anomaly) and \<open>drawsAnomaly\<close> (anomaly).\<close>

theorem value_ranges_witness:
  "valid_draws draws0 \<and> \<not> anomalous draws0 \<and> valid_draws drawsAnomaly \<and> anomalous drawsAnomaly \<and>
   (\<exists>lo hi v. stMin (sensorTypes ! Intn (dType draws0) (length sensorTypes)) = Finite lo \<and>
      stMax (sensorTypes ! Intn (dType draws0) (length sensorTypes)) = Finite hi \<and>
      Value (generateReading False (clock env0 0) draws0) = Finite v \<and> lo \<le> v \<and> v \<le> hi) \<and>
   (\<exists>hi v. stMax (sensorTypes ! Intn (dType drawsAnomaly) (length sensorTypes)) = Finite hi \<and>
      Value (generateReading False (clock env0 0) drawsAnomaly) = Finite v \<and>
      hi \<le> v \<and> v \<le> hi * 6 / 5)"
proof -
  have v0: "valid_draws draws0" by (rule valid_draws0)
  have n0: "\<not> anomalous draws0" by code_simp
  have v1: "valid_draws drawsAnomaly" by code_simp
  have a1: "anomalous drawsAnomaly" by code_simp
  show ?thesis
    using value_ranges [OF v0, of False "clock env0 0"] value_ranges [OF v1, of False "clock env0 0"]
      v0 n0 v1 a1 by (simp only: simp_thms) blast
qed


section \<open>Batch size and tick interval\<close>

lemma round64_of_int:
  assumes "0 \<le> n" "n < 2 ^ 53" shows "round64 (of_int n) = Finite (of_int n)"
  using float64_of_int_Finite [OF assms] by (simp add: float64_of_int_def)

lemma div_le_self_rat:
  fixes a b :: rat
  assumes "0 \<le> a" "1 \<le> b" shows "a / b \<le> a"
proof -
  have "a / b \<le> a / 1" using assms by (intro divide_left_mono) simp_all
  then show ?thesis by simp
qed

lemma batchSize_eq: "0 < rate \<Longrightarrow> batchSize rate = min 1000 rate"
  by (simp add: batchSize_def Let_def min_def)

lemma float64_of_rate:
  assumes "0 < R" "R < 2 ^ 63"
  shows "float64_of_int R = Finite (rne53 (of_int R))" and "1 \<le> rne53 (of_int R)"
proof -
  have one: "rne53 1 = 1" by code_simp
  have top: "rne53 9223372036854775808 = 9223372036854775808" by code_simp
  have "(of_int 1 :: rat) \<le> of_int R" using assms(1) unfolding of_int_le_iff by simp
  then have "rne53 1 \<le> rne53 (of_int R)" by (intro rne53_mono) simp
  then show lo: "1 \<le> rne53 (of_int R)" by (simp add: one)
  have "(of_int R :: rat) \<le> of_int (2 ^ 63)" using assms(2) unfolding of_int_le_iff by simp
  then have "rne53 (of_int R) \<le> rne53 9223372036854775808" by (intro rne53_mono) simp
  then have "\<bar>rne53 (of_int R)\<bar> \<le> 2 ^ 64" using lo by (simp add: top)
  then show "float64_of_int R = Finite (rne53 (of_int R))"
    by (simp add: float64_of_int_def round64_Finite le_huge)
qed

lemma interval_value:
  assumes R: "0 < R" "R < 2 ^ 63"
  defines "N \<equiv> Second * batchSize R"
  shows "tickInterval R = Some \<lfloor>rne53 (of_int N / rne53 (of_int R))\<rfloor>"
    and "0 \<le> rne53 (of_int N / rne53 (of_int R))"
proof -
  define r' where "r' = rne53 (of_int R)"
  have r': "float64_of_int R = Finite r'" "1 \<le> r'"
    using float64_of_rate [OF R] by (simp_all add: r'_def)
  have b: "1 \<le> batchSize R" "batchSize R \<le> 1000" using R by (simp_all add: batchSize_eq)
  have N: "0 \<le> N" "N \<le> 1000000000000" "N < 2 ^ 53"
    using b by (simp_all add: N_def Second_def)
  have s: "float64_of_int Second = Finite 1000000000"
    using float64_of_int_Finite [of Second] by (simp add: Second_def)
  have fb: "float64_of_int (batchSize R) = Finite (of_int (batchSize R))"
    using b by (intro float64_of_int_Finite) simp_all
  have "fmul (float64_of_int Second) (float64_of_int (batchSize R)) = round64 (of_int N)"
    unfolding s fb by (simp add: fmul_def N_def Second_def)
  then have prod: "fmul (float64_of_int Second) (float64_of_int (batchSize R)) = Finite (of_int N)"
    using round64_of_int [OF N(1,3)] by simp
  define y where "y = rne53 (of_int N / r')"
  have NN: "rne53 (of_int N) = of_int N" using N by (intro rne53_of_int)
  have "(of_int N :: rat) \<le> of_int 1000000000000" using N(2) unfolding of_int_le_iff .
  then have Nle: "(of_int N :: rat) \<le> 2 ^ 64" by simp
  have "0 \<le> of_int N / r'" using N r' by simp
  moreover have "of_int N / r' \<le> of_int N" using N r' by (intro div_le_self_rat) simp_all
  ultimately have q: "round64 (of_int N / r') = Finite y \<and> 0 \<le> y \<and> y \<le> of_int N"
    unfolding y_def using huge_pos Nle by (intro round64_between [OF _ _ rne53_zero NN]) (simp_all add: le_huge)
  have "r' \<noteq> 0" using r' by simp
  then have d: "fdiv (Finite (of_int N)) (Finite r') = Finite y"
    using q by (simp add: fdiv_def)
  have "\<lfloor>y\<rfloor> \<le> N" using q by (simp add: floor_le_iff)
  moreover have "(1000000000000::int) < 2 ^ 63" by simp
  ultimately have "\<lfloor>y\<rfloor> < 2 ^ 63" using N(2) by linarith
  moreover have "0 \<le> \<lfloor>y\<rfloor>" using q by simp
  ultimately have "to_int64 (Finite y) = Some \<lfloor>y\<rfloor>" using q by (simp add: to_int64_def)
  then show "tickInterval R = Some \<lfloor>rne53 (of_int N / rne53 (of_int R))\<rfloor>"
    unfolding tickInterval_def prod r'(1) d by (simp add: y_def r'_def)
  show "0 \<le> rne53 (of_int N / rne53 (of_int R))" using q by (simp add: y_def r'_def)
qed

lemma interval_near_quotient:
  assumes R: "0 < R" "R < 2 ^ 63"
  defines "N \<equiv> Second * batchSize R"
  defines "y \<equiv> rne53 (of_int N / rne53 (of_int R))"
  shows "\<lfloor>of_int N / of_int R :: rat\<rfloor> \<le> \<lfloor>y\<rfloor> \<and> \<lfloor>y\<rfloor> \<le> \<lceil>of_int N / of_int R :: rat\<rceil>"
proof (cases "R < 2 ^ 53")
  case True
  define q :: rat where "q = of_int N / of_int R"
  have b: "1 \<le> batchSize R" "batchSize R \<le> 1000" using R by (simp_all add: batchSize_eq)
  have N: "0 \<le> N" "N \<le> 1000000000000" using b by (simp_all add: N_def Second_def)
  have rr: "rne53 (of_int R) = of_int R" using R True by (intro rne53_of_int) simp_all
  have yq: "y = rne53 q" by (simp add: y_def q_def rr)
  have q0: "0 \<le> q" using N R by (simp add: q_def)
  have "(of_int 1 :: rat) \<le> of_int R" using R(1) unfolding of_int_le_iff by simp
  then have "q \<le> of_int N" unfolding q_def using N by (intro div_le_self_rat) simp_all
  moreover have "(of_int N :: rat) \<le> of_int 1000000000000" using N(2) unfolding of_int_le_iff .
  ultimately have qN: "q \<le> of_int 1000000000000" by (rule order_trans)
  have f: "0 \<le> \<lfloor>q\<rfloor>" "\<lfloor>q\<rfloor> < 2 ^ 53" using q0 qN by (simp_all add: floor_less_iff)
  have c: "0 \<le> \<lceil>q\<rceil>" "\<lceil>q\<rceil> < 2 ^ 53"
    using q0 qN by (simp_all add: ceiling_less_iff)
  have "rne53 (of_int \<lfloor>q\<rfloor>) \<le> rne53 q" by (intro rne53_mono) simp
  then have "of_int \<lfloor>q\<rfloor> \<le> y" unfolding yq rne53_of_int [OF f] .
  then have lo: "\<lfloor>q\<rfloor> \<le> \<lfloor>y\<rfloor>" by (simp add: le_floor_iff)
  have "rne53 q \<le> rne53 (of_int \<lceil>q\<rceil>)" by (intro rne53_mono) simp
  then have "y \<le> of_int \<lceil>q\<rceil>" unfolding yq rne53_of_int [OF c] .
  then have "\<lfloor>y\<rfloor> \<le> \<lceil>q\<rceil>" by (simp add: floor_le_iff)
  with lo show ?thesis by (simp add: q_def)
next
  case False
  then have big: "2 ^ 53 \<le> R" by simp
  then have bs: "batchSize R = 1000" by (simp add: batchSize_def Let_def)
  have N: "N = 1000000000000" by (simp add: N_def bs Second_def)
  have p53: "rne53 9007199254740992 = 9007199254740992" by code_simp
  have small: "rne53 (1000000000000 / 9007199254740992) < 1" by code_simp
  have "(of_int (2 ^ 53) :: rat) \<le> of_int R" using big unfolding of_int_le_iff .
  then have Rbig: "(9007199254740992 :: rat) \<le> of_int R" by simp
  then have "rne53 9007199254740992 \<le> rne53 (of_int R)" by (rule rne53_mono)
  then have r': "9007199254740992 \<le> rne53 (of_int R)" by (simp add: p53)
  have "(1000000000000 :: rat) / rne53 (of_int R) \<le> 1000000000000 / 9007199254740992"
    using r' by (intro divide_left_mono) simp_all
  then have "y \<le> rne53 (1000000000000 / 9007199254740992)"
    unfolding y_def N by (intro rne53_mono) simp
  then have y1: "y < 1" using small by simp
  have "0 \<le> (1000000000000 :: rat) / rne53 (of_int R)" using r' by simp
  then have "0 \<le> y" unfolding y_def N using rne53_nonneg by simp
  then have fy: "\<lfloor>y\<rfloor> = 0" using y1 by (simp add: floor_eq_iff)
  have "0 < (1000000000000 :: rat) / of_int R" "(1000000000000 :: rat) / of_int R < 1"
    using Rbig by simp_all
  then have "\<lfloor>1000000000000 / of_int R :: rat\<rfloor> = 0" "\<lceil>1000000000000 / of_int R :: rat\<rceil> = 1"
    by (simp_all add: floor_eq_iff ceiling_eq_iff)
  then show ?thesis by (simp add: fy N)
qed

text \<open>
  C3: for every positive rate \<open>R\<close> (a Go \<^verbatim>\<open>int\<close>, below \<open>2^63\<close>) the batch size is
  \<open>min 1000 R\<close>, which is at least 1, and the tick interval, in nanoseconds, is the quotient
  \<^verbatim>\<open>1 second * batchSize / R\<close> taken in \<^verbatim>\<open>float64\<close> and cut to a whole number only at the
  end: it lies between the floor and the ceiling of the exact quotient. A rate of 50000
  gives a batch of 1000 and an interval of 20 000 000 ns = 20 ms.
\<close>

theorem batch_and_interval:
  assumes "0 < R" and "R < 2 ^ 63"
  shows "batchSize R = min 1000 R \<and> 1 \<le> batchSize R \<and>
         (\<exists>ns. tickInterval R = Some ns \<and>
            \<lfloor>of_int (Second * batchSize R) / of_int R :: rat\<rfloor> \<le> ns \<and>
            ns \<le> \<lceil>of_int (Second * batchSize R) / of_int R :: rat\<rceil>) \<and>
         batchSize 50000 = 1000 \<and> tickInterval 50000 = Some 20000000"
proof -
  have "batchSize 50000 = 1000" by (simp add: batchSize_def)
  moreover have "tickInterval 50000 = Some 20000000" by code_simp
  moreover have "batchSize R = min 1000 R" "1 \<le> batchSize R"
    using assms by (simp_all add: batchSize_eq)
  ultimately show ?thesis
    using interval_value(1) [OF assms] interval_near_quotient [OF assms] by simp
qed

text \<open>C3 at the rate 7: a batch of 7 records every second.\<close>

theorem batch_and_interval_witness:
  "(0::int) < 7 \<and> (7::int) < 2 ^ 63 \<and> batchSize 7 = 7 \<and> tickInterval 7 = Some 1000000000"
proof -
  have "\<lfloor>of_int (Second * 7) / of_int 7 :: rat\<rfloor> = 1000000000"
    "\<lceil>of_int (Second * 7) / of_int 7 :: rat\<rceil> = 1000000000"
    by (simp_all add: Second_def)
  then show ?thesis using batch_and_interval [of 7] by auto
qed



section \<open>The final statistics\<close>

lemma Seconds_zero: "Seconds 0 = Finite 0"
  by code_simp

lemma float64_of_count:
  assumes "0 \<le> n" "n < 2 ^ 63"
  shows "float64_of_int n = Finite (rne53 (of_int n))"
    and "rsgn (rne53 (of_int n)) = (if n = 0 then 0 else 1)"
proof -
  show "float64_of_int n = Finite (rne53 (of_int n))"
  proof (cases "n = 0")
    case True
    have "float64_of_int 0 = Finite (rne53 0)" by code_simp
    then show ?thesis by (simp add: True)
  next
    case False
    then show ?thesis using assms by (intro float64_of_rate(1)) simp_all
  qed
  show "rsgn (rne53 (of_int n)) = (if n = 0 then 0 else 1)"
  proof (cases "n = 0")
    case True
    then show ?thesis by (simp add: rne53_zero rsgn_def)
  next
    case False
    then have "1 \<le> rne53 (of_int n)" using assms by (intro float64_of_rate(2)) simp_all
    then show ?thesis using False by (simp add: rsgn_def)
  qed
qed

text \<open>
  C5, as stated: the two averages are guarded against a zero divisor. They are not: with
  no record and no elapsed time both averages of the report are NaN, and with records but
  no elapsed time the average rate is an infinity.
\<close>

theorem stats_division_unguarded:
  "printFinalStats 0 0 (Some 0) =
     Some \<lparr>repTotal = 0, repElapsed = 0, repRate = NaN, repSizeMB = Finite 0, repAvgSize = NaN\<rparr> \<and>
   \<not> guarded \<lparr>repTotal = 0, repElapsed = 0, repRate = NaN, repSizeMB = Finite 0,
     repAvgSize = NaN\<rparr> \<and>
   repRate (the (printFinalStats 1000 0 (Some 330000))) = PosInf"
proof -
  have z: "float64_of_int 0 = Finite 0" by code_simp
  have m: "fdiv (Finite 0) (f64 1048576) = Finite 0" by code_simp
  have a: "printFinalStats 0 0 (Some 0) =
     Some \<lparr>repTotal = 0, repElapsed = 0, repRate = NaN, repSizeMB = Finite 0, repAvgSize = NaN\<rparr>"
    by (simp add: printFinalStats_def Seconds_zero z m) (simp add: fdiv_def rsgn_def inf_signed_def)
  have k: "float64_of_int 1000 = Finite 1000" by code_simp
  have b: "repRate (the (printFinalStats 1000 0 (Some 330000))) = PosInf"
    by (simp add: printFinalStats_def Seconds_zero k) (simp add: fdiv_def rsgn_def inf_signed_def)
  show ?thesis using a b by (simp add: guarded_def is_finite_def)
qed

text \<open>
  C5, amended: for every record count, elapsed time and file size (each an \<^verbatim>\<open>int64\<close>, the
  count and the size not negative) the final report is computed without a crash, provided
  \<^verbatim>\<open>os.Stat\<close> succeeded. The averages are \<^verbatim>\<open>float64\<close> divisions that nothing guards: with
  zero elapsed time the average rate is \<open>+Inf\<close>, or NaN when the count is zero as well; with
  a zero count the average size is \<open>+Inf\<close>, or NaN when the size is zero as well.
\<close>

theorem stats_never_crash:
  assumes "0 \<le> tot" "tot < 2 ^ 63" "0 \<le> sz" "sz < 2 ^ 63"
  shows "\<exists>rp. printFinalStats tot elapsed (Some sz) = Some rp \<and>
           (elapsed = 0 \<longrightarrow> repRate rp = (if tot = 0 then NaN else PosInf)) \<and>
           (tot = 0 \<longrightarrow> repAvgSize rp = (if sz = 0 then NaN else PosInf))"
proof -
  have t: "float64_of_int tot = Finite (rne53 (of_int tot))"
      "rsgn (rne53 (of_int tot)) = (if tot = 0 then 0 else 1)"
    using assms(1,2) by (rule float64_of_count)+
  have s: "float64_of_int sz = Finite (rne53 (of_int sz))"
      "rsgn (rne53 (of_int sz)) = (if sz = 0 then 0 else 1)"
    using assms(3,4) by (rule float64_of_count)+
  have r: "elapsed = 0 \<longrightarrow>
      fdiv (float64_of_int tot) (Seconds elapsed) = (if tot = 0 then NaN else PosInf)"
    by (simp add: Seconds_zero t fdiv_def inf_signed_def)
  have z: "float64_of_int 0 = Finite 0" by code_simp
  have a: "tot = 0 \<longrightarrow>
      fdiv (float64_of_int sz) (float64_of_int tot) = (if sz = 0 then NaN else PosInf)"
    by (simp add: z s fdiv_def inf_signed_def)
  show ?thesis using r a by (simp add: printFinalStats_def Let_def)
qed

text \<open>C5, amended, at a report with no record, no elapsed time and an empty file.\<close>

theorem stats_never_crash_witness:
  "\<exists>rp. printFinalStats 0 0 (Some 0) = Some rp \<and> repRate rp = NaN \<and> repAvgSize rp = NaN"
  using stats_never_crash [of 0 0 0] by simp

section \<open>Serialized records\<close>

lemma number_Some:
  assumes "number a = Some v" obtains x where "a = Finite x" "v = JNumber x"
  using assms by (cases a) (simp_all add: number_def)

lemma number_Finite: "number (Finite x) = Some (JNumber x)"
  by (simp add: number_def)

lemma encode_Inr:
  assumes "encode r = Inr j"
  obtains v la lo mp q where
    "Value r = Finite v" "Lat (Location r) = Finite la" "Lon (Location r) = Finite lo"
    "MilePost (Location r) = Finite mp" "Quality r = Finite q"
    "j = JObject
       ([(''sensor_id'', JString (SensorID r)),
         (''timestamp'', JString (Timestamp r)),
         (''type'', JString (Type r)),
         (''value'', JNumber v),
         (''unit'', JString (Unit r)),
         (''location'', JObject [(''lat'', JNumber la), (''lon'', JNumber lo),
            (''mile_post'', JNumber mp)]),
         (''pipeline_id'', JString (PipelineID r)),
         (''status'', JString (Status r)),
         (''quality_score'', JNumber q)]
        @ (if AlertLevel r = [] then [] else [(''alert_level'', JString (AlertLevel r))]))"
proof -
  obtain v' la' lo' mp' q' where n: "number (Value r) = Some v'"
      "number (Lat (Location r)) = Some la'" "number (Lon (Location r)) = Some lo'"
      "number (MilePost (Location r)) = Some mp'" "number (Quality r) = Some q'"
    using assms by (auto simp: encode_def split: option.splits)
  from n(1) obtain v where v: "Value r = Finite v" "v' = JNumber v" by (rule number_Some)
  from n(2) obtain la where la: "Lat (Location r) = Finite la" "la' = JNumber la"
    by (rule number_Some)
  from n(3) obtain lo where lo: "Lon (Location r) = Finite lo" "lo' = JNumber lo"
    by (rule number_Some)
  from n(4) obtain mp where mp: "MilePost (Location r) = Finite mp" "mp' = JNumber mp"
    by (rule number_Some)
  from n(5) obtain q where q: "Quality r = Finite q" "q' = JNumber q" by (rule number_Some)
  show ?thesis
    using assms by (intro that [OF v(1) la(1) lo(1) mp(1) q(1)])
      (simp add: encode_def v la lo mp q number_Finite)
qed


lemma hexdigit_no_newline: "hexdigit n \<noteq> CHR 0x0A" "CHR 0x0A \<noteq> hexdigit n"
proof -
  have "hexdigit n \<in> set ''0123456789abcdef''"
    unfolding hexdigit_def by (rule nth_mem) simp
  then show "hexdigit n \<noteq> CHR 0x0A" "CHR 0x0A \<noteq> hexdigit n" by auto
qed

lemma escape_no_newline: "CHR 0x0A \<notin> set (escape c)"
  by (simp add: escape_def hexdigit_no_newline)

lemma quote_no_newline: "CHR 0x0A \<notin> set (quote s)"
  using escape_no_newline by (auto simp: quote_def)



lemma Marshal_no_newline:
  assumes fmt: "\<forall>x. CHR 0x0A \<notin> set (fmt x)" and m: "Marshal fmt r = Inr s"
  shows "CHR 0x0A \<notin> set s"
proof -
  obtain j where j: "encode r = Inr j" "s = render fmt j"
    using m by (auto simp: Marshal_def split: sum.splits)
  from j(1) show ?thesis
  proof (rule encode_Inr)
    fix v la lo mp q
    assume "j = JObject
       ([(''sensor_id'', JString (SensorID r)),
         (''timestamp'', JString (Timestamp r)),
         (''type'', JString (Type r)),
         (''value'', JNumber v),
         (''unit'', JString (Unit r)),
         (''location'', JObject [(''lat'', JNumber la), (''lon'', JNumber lo),
            (''mile_post'', JNumber mp)]),
         (''pipeline_id'', JString (PipelineID r)),
         (''status'', JString (Status r)),
         (''quality_score'', JNumber q)]
        @ (if AlertLevel r = [] then [] else [(''alert_level'', JString (AlertLevel r))]))"
    then show ?thesis using fmt quote_no_newline by (simp add: j(2))
  qed
qed




section \<open>The emission loop\<close>

lemma lines_append: "lines (xs @ ys) = lines xs + lines ys"
  by (simp add: lines_def)

lemma lines_none: "CHR 0x0A \<notin> set xs \<Longrightarrow> lines xs = 0"
  by (induction xs) (auto simp: lines_def)

lemma writeRecord_failure:
  assumes "Marshal fmt r = Inl err"
  shows "writeRecord fmt r s =
    s\<lparr>written := written s @ [CHR 0x0A], totalEntries := totalEntries s + 1\<rparr>"
  using assms by (simp add: writeRecord_def)

lemma writeRecord_fields:
  "totalEntries (writeRecord fmt r s) = totalEntries s + 1"
  "flushed (writeRecord fmt r s) = flushed s"
  "written (writeRecord fmt r s) \<noteq> []"
  "last (written (writeRecord fmt r s)) = CHR 0x0A"
  by (simp_all add: writeRecord_def Let_def)

lemma writeRecord_lines:
  assumes "\<forall>x. CHR 0x0A \<notin> set (fmt x)"
  shows "lines (written (writeRecord fmt r s)) = lines (written s) + 1"
proof (cases "Marshal fmt r")
  case (Inl err)
  then show ?thesis by (simp add: writeRecord_failure lines_append) (simp add: lines_def)
next
  case (Inr b)
  then have "lines b = 0" using assms Marshal_no_newline lines_none by blast
  then show ?thesis using Inr by (simp add: writeRecord_def lines_append) (simp add: lines_def)
qed

lemma emit_fields:
  "totalEntries (emit e s) = totalEntries s + 1"
  "flushed (emit e s) = flushed s"
  "written (emit e s) \<noteq> []"
  "last (written (emit e s)) = CHR 0x0A"
  by (simp_all add: emit_def Let_def writeRecord_fields)

lemma emit_lines:
  "\<forall>x. CHR 0x0A \<notin> set (formatFloat e x) \<Longrightarrow> lines (written (emit e s)) = lines (written s) + 1"
  by (simp add: emit_def Let_def writeRecord_lines)

lemma writeBatch_total: "totalEntries (writeBatch e n s) = totalEntries s + int n"
  by (induction n arbitrary: s) (simp_all add: emit_fields)

lemma writeBatch_lines:
  assumes "\<forall>x. CHR 0x0A \<notin> set (formatFloat e x)"
  shows "lines (written (writeBatch e n s)) = lines (written s) + n"
  using assms by (induction n arbitrary: s) (simp_all add: emit_lines)

lemma writeBatch_last:
  assumes "written s = [] \<or> last (written s) = CHR 0x0A"
  shows "written (writeBatch e n s) = [] \<or> last (written (writeBatch e n s)) = CHR 0x0A"
  using assms by (induction n arbitrary: s) (simp_all add: emit_fields)

text \<open>
  What holds whenever the loop is at its \<^verbatim>\<open>select\<close>: the counter is the number of lines
  written, the output ends with a line terminator, all of it is flushed, and the counter
  is a whole number of batches.
\<close>

lemma mainLoop_invariant:
  assumes fmt: "\<forall>x. CHR 0x0A \<notin> set (formatFloat e x)"
    and inv: "totalEntries s = int (lines (written s))"
      "written s = [] \<or> last (written s) = CHR 0x0A"
      "flushed s = length (written s)"
      "\<exists>k. totalEntries s = int (k * b)"
  shows "totalEntries (final (mainLoop duration e b evs s))
           = int (lines (written (final (mainLoop duration e b evs s)))) \<and>
         (written (final (mainLoop duration e b evs s)) = [] \<or>
            last (written (final (mainLoop duration e b evs s))) = CHR 0x0A) \<and>
         flushed (final (mainLoop duration e b evs s))
           = length (written (final (mainLoop duration e b evs s))) \<and>
         (\<exists>k. totalEntries (final (mainLoop duration e b evs s)) = int (k * b)) \<and>
         (\<forall>s' n. mainLoop duration e b evs s = Exited s' n \<longrightarrow> n = totalEntries s')"
  using fmt inv
proof (induction duration e b evs s rule: mainLoop.induct)
  case (1 duration e b s)
  then show ?case by (simp add: final_def)
next
  case (2 duration e b evs s)
  then show ?case by (simp add: final_def Flush_def)
next
  case (3 duration e b late evs s)
  note f = 3(2) and i = 3(3-6)
  show ?case
  proof (cases "0 < duration \<and> late")
    case True
    then show ?thesis using i by (simp add: final_def Flush_def)
  next
    case False
    let ?s = "Flush (writeBatch e b s)"
    obtain k where k: "totalEntries s = int (k * b)" using i(4) by blast
    have a: "totalEntries ?s = int (lines (written ?s))"
      using i(1) by (simp add: Flush_def writeBatch_total writeBatch_lines [OF f])
    have b: "written ?s = [] \<or> last (written ?s) = CHR 0x0A"
      using writeBatch_last [OF i(2)] by (simp add: Flush_def)
    have c: "flushed ?s = length (written ?s)" by (simp add: Flush_def)
    have "totalEntries ?s = int ((k + 1) * b)"
      by (simp add: Flush_def writeBatch_total k algebra_simps)
    then have d: "\<exists>k. totalEntries ?s = int (k * b)" by blast
    have eq: "mainLoop duration e b (Tick late # evs) s = mainLoop duration e b evs ?s"
      using False by auto
    show ?thesis unfolding eq by (rule 3(1) [OF False f a b c d])
  qed
qed

lemma start_invariant:
  "totalEntries start = int (lines (written start))"
  "written start = [] \<or> last (written start) = CHR 0x0A"
  "flushed start = length (written start)"
  "\<exists>k. totalEntries start = int (k * b)"
  by (simp_all add: start_def lines_def)


lemma env0_format: "\<forall>x. CHR 0x0A \<notin> set (formatFloat env0 x)"
  by (simp add: env0_def)




text \<open>
  C6: a batch of \<open>n\<close> records adds \<open>n\<close> to the counter and \<open>n\<close> line terminators to the
  output, one after each record (a number's text holds no line break). So when a run of
  the loop ends, after any cases taken by its \<^verbatim>\<open>select\<close>s, the count handed to
  \<^verbatim>\<open>printFinalStats\<close> is the number of lines written; all of them are flushed and the
  last one is complete.
\<close>

theorem count_equals_lines:
  assumes "\<forall>x. CHR 0x0A \<notin> set (formatFloat e x)"
  shows "totalEntries (writeBatch e n s) = totalEntries s + int n \<and>
         lines (written (writeBatch e n s)) = lines (written s) + n \<and>
         (\<forall>s' c. mainLoop duration e b evs start = Exited s' c \<longrightarrow>
            c = int (lines (written s')) \<and> flushed s' = length (written s') \<and>
            (written s' = [] \<or> last (written s') = CHR 0x0A))"
proof -
  have "\<forall>s' c. mainLoop duration e b evs start = Exited s' c \<longrightarrow>
            c = int (lines (written s')) \<and> flushed s' = length (written s') \<and>
            (written s' = [] \<or> last (written s') = CHR 0x0A)"
    using mainLoop_invariant [where s = start and b = b and duration = duration and evs = evs,
        OF assms start_invariant]
    by (auto simp: final_def)
  then show ?thesis using assms by (simp add: writeBatch_total writeBatch_lines)
qed

text \<open>C6 at a run of one batch of one record, stopped by a signal.\<close>

theorem count_equals_lines_witness:
  "(\<forall>x. CHR 0x0A \<notin> set (formatFloat env0 x)) \<and>
   (\<exists>s'. mainLoop 0 env0 1 [Tick False, Signal] start = Exited s' 1 \<and>
      lines (written s') = 1 \<and> flushed s' = length (written s'))"
proof -
  have t: "totalEntries (writeBatch env0 1 start) = 1"
    using count_equals_lines [OF env0_format, of 1 start] by (simp add: start_def)
  have m: "mainLoop 0 env0 1 [Tick False, Signal] start =
      Exited (Flush (Flush (writeBatch env0 (Suc 0) start))) 1"
    using t by (simp add: Flush_def)
  show ?thesis
    using count_equals_lines [OF env0_format, of 1 start 0 1 "[Tick False, Signal]"] m env0_format
    by auto
qed

text \<open>
  C9, as stated: a stop signal has priority over the tick and is delayed by one batch at
  most. It has no priority: when both channels are ready the \<^verbatim>\<open>select\<close> may take the
  ticker case, and may do so again the next time. In the schedule below the signal is
  pending from the first \<^verbatim>\<open>select\<close> on, and two whole batches are written before the loop
  takes it.
\<close>

theorem tick_taken_while_signal_pending:
  "sigReady both \<and> selects both (Tick False) \<and>
   admissible [(both, Tick False), (both, Tick False), (both, Signal)] \<and>
   mainLoop 0 env0 1 [Tick False, Tick False, Signal] start =
     Exited (Flush (Flush (writeBatch env0 1 (Flush (writeBatch env0 1 start))))) 2"
proof -
  have "totalEntries (Flush (writeBatch env0 1 (Flush (writeBatch env0 1 start)))) = 2"
    by (simp add: Flush_def writeBatch_total start_def del: writeBatch.simps One_nat_def)
  then have "mainLoop 0 env0 1 [Tick False, Tick False, Signal] start =
     Exited (Flush (Flush (writeBatch env0 1 (Flush (writeBatch env0 1 start))))) 2"
    by (simp del: writeBatch.simps One_nat_def)
  then show ?thesis by (simp add: both_def del: writeBatch.simps One_nat_def mainLoop.simps)
qed

text \<open>
  C9, amended: a pending stop signal can be taken by the next \<^verbatim>\<open>select\<close>, and is taken
  there when the ticker is not ready as well (when both are ready either case may be
  taken, so the stop can wait for more than one batch); the loop then flushes and ends
  without writing. A batch, once started, is completed and flushed before the next
  \<^verbatim>\<open>select\<close>: wherever the loop stands, all output is flushed and it is a whole number of
  batches of complete lines.
\<close>

theorem signal_taken_and_whole_batches:
  "(selects r ev \<and> sigReady r \<and> \<not> tickReady r \<longrightarrow> ev = Signal) \<and>
   (sigReady r \<longrightarrow> selects r Signal) \<and>
   mainLoop duration e b (Signal # evs) s = Exited (Flush s) (totalEntries s) \<and>
   (\<not> (0 < duration \<and> late) \<longrightarrow>
      mainLoop duration e b (Tick late # evs) s =
        mainLoop duration e b evs (Flush (writeBatch e b s))) \<and>
   ((\<forall>x. CHR 0x0A \<notin> set (formatFloat e x)) \<longrightarrow>
      flushed (final (mainLoop duration e b evs' start))
        = length (written (final (mainLoop duration e b evs' start))) \<and>
      (written (final (mainLoop duration e b evs' start)) = [] \<or>
         last (written (final (mainLoop duration e b evs' start))) = CHR 0x0A) \<and>
      (\<exists>k. lines (written (final (mainLoop duration e b evs' start))) = k * b))"
proof -
  have a: "selects r ev \<and> sigReady r \<and> \<not> tickReady r \<longrightarrow> ev = Signal"
    by (cases ev) simp_all
  have c: "\<not> (0 < duration \<and> late) \<longrightarrow>
      mainLoop duration e b (Tick late # evs) s =
        mainLoop duration e b evs (Flush (writeBatch e b s))"
    by auto
  have d: "(\<forall>x. CHR 0x0A \<notin> set (formatFloat e x)) \<longrightarrow>
      flushed (final (mainLoop duration e b evs' start))
        = length (written (final (mainLoop duration e b evs' start))) \<and>
      (written (final (mainLoop duration e b evs' start)) = [] \<or>
         last (written (final (mainLoop duration e b evs' start))) = CHR 0x0A) \<and>
      (\<exists>k. lines (written (final (mainLoop duration e b evs' start))) = k * b)"
  proof
    assume f: "\<forall>x. CHR 0x0A \<notin> set (formatFloat e x)"
    let ?s = "final (mainLoop duration e b evs' start)"
    have i: "totalEntries ?s = int (lines (written ?s))"
        "written ?s = [] \<or> last (written ?s) = CHR 0x0A"
        "flushed ?s = length (written ?s)" "\<exists>k. totalEntries ?s = int (k * b)"
      using mainLoop_invariant [where s = start and b = b and duration = duration and evs = evs',
          OF f start_invariant] by blast+
    from i(4) obtain k where "totalEntries ?s = int (k * b)" by blast
    then have "int (lines (written ?s)) = int (k * b)" using i(1) by simp
    then have "lines (written ?s) = k * b" by (simp only: of_nat_eq_iff)
    then show "flushed ?s = length (written ?s) \<and>
        (written ?s = [] \<or> last (written ?s) = CHR 0x0A) \<and> (\<exists>k. lines (written ?s) = k * b)"
      using i by blast
  qed
  show ?thesis using a c d by simp
qed

text \<open>
  C9, amended, at a \<^verbatim>\<open>select\<close> where only the signal is ready, and at a run of two batches
  of three records.
\<close>

theorem signal_taken_and_whole_batches_witness:
  "selects \<lparr>sigReady = True, tickReady = False\<rparr> Signal \<and>
   \<not> selects \<lparr>sigReady = True, tickReady = False\<rparr> (Tick False) \<and>
   (\<forall>x. CHR 0x0A \<notin> set (formatFloat env0 x)) \<and>
   flushed (final (mainLoop 0 env0 3 [Tick False, Tick False] start))
     = length (written (final (mainLoop 0 env0 3 [Tick False, Tick False] start))) \<and>
   (\<exists>k. lines (written (final (mainLoop 0 env0 3 [Tick False, Tick False] start))) = k * 3)"
  using signal_taken_and_whole_batches
    [of "\<lparr>sigReady = True, tickReady = False\<rparr>" Signal 0 env0 3 "[]" start False
        "[Tick False, Tick False]"]
    env0_format
  by (simp del: mainLoop.simps)

end
